theory Spec2Isabelle
  imports Main
begin

section \<open>Circuit breaker (circuit-breaker.service.ts)\<close>

text \<open>
  The enum \<open>CircuitBreakerState\<close> of \<open>enums/circuit-breaker-state.enum\<close> has the three
  members the service compares against.
\<close>

datatype CircuitBreakerState = CLOSED | OPEN | HALF_OPEN

text \<open>
  The fields of \<open>CircuitBreakerService\<close>. The one-shot \<open>cooldownTimer\<close> is either armed
  (\<open>True\<close>, a pending \<open>setTimeout\<close>) or \<open>null\<close> (\<open>False\<close>); its callback is the event
  \<open>cooldownExpired\<close> below.
\<close>

record CircuitBreakerService =
  cb_state :: CircuitBreakerState
  failureCount :: int
  failureThreshold :: int
  cooldownMs :: int
  cooldownTimer :: bool

text \<open>
  The constructor reads \<open>parseInt(env || '5', 10) || 5\<close>: an absent, unparsable or zero
  setting gives the default, any other integer is taken as it is. The argument is the
  parsed environment value, \<open>None\<close> when the variable is unset or \<open>parseInt\<close> gives NaN.
\<close>

definition envOrDefault :: "int option \<Rightarrow> int \<Rightarrow> int" where
  "envOrDefault parsed dflt =
     (case parsed of None \<Rightarrow> dflt | Some n \<Rightarrow> (if n = 0 then dflt else n))"

definition newCircuitBreaker :: "int option \<Rightarrow> int option \<Rightarrow> CircuitBreakerService" where
  "newCircuitBreaker envThreshold envCooldown =
     \<lparr> cb_state = CLOSED, failureCount = 0,
       failureThreshold = envOrDefault envThreshold 5,
       cooldownMs = envOrDefault envCooldown 2000,
       cooldownTimer = False \<rparr>"

definition isOpen :: "CircuitBreakerService \<Rightarrow> bool" where
  "isOpen b = (cb_state b = OPEN)"

definition isHalfOpen :: "CircuitBreakerService \<Rightarrow> bool" where
  "isHalfOpen b = (cb_state b = HALF_OPEN)"

definition clearCooldownTimer :: "CircuitBreakerService \<Rightarrow> CircuitBreakerService" where
  "clearCooldownTimer b = (if cooldownTimer b then b\<lparr>cooldownTimer := False\<rparr> else b)"

definition startCooldown :: "CircuitBreakerService \<Rightarrow> CircuitBreakerService" where
  "startCooldown b = (clearCooldownTimer b)\<lparr>cooldownTimer := True\<rparr>"

definition open_breaker :: "CircuitBreakerService \<Rightarrow> CircuitBreakerService" where
  "open_breaker b = startCooldown (b\<lparr>cb_state := OPEN\<rparr>)"

definition recordSuccess :: "CircuitBreakerService \<Rightarrow> CircuitBreakerService" where
  "recordSuccess b =
     (if cb_state b = HALF_OPEN then
        clearCooldownTimer (b\<lparr>cb_state := CLOSED, failureCount := 0\<rparr>)
      else if cb_state b = CLOSED then b\<lparr>failureCount := 0\<rparr>
      else b)"

definition recordFailure :: "CircuitBreakerService \<Rightarrow> CircuitBreakerService" where
  "recordFailure b =
     (let b1 = b\<lparr>failureCount := failureCount b + 1\<rparr> in
      if cb_state b1 = CLOSED then
        (if failureCount b1 \<ge> failureThreshold b1 then open_breaker b1 else b1)
      else if cb_state b1 = HALF_OPEN then open_breaker b1
      else b1)"

text \<open>The callback the cooldown timer runs when it fires; without an armed timer nothing runs.\<close>

definition cooldownExpired :: "CircuitBreakerService \<Rightarrow> CircuitBreakerService" where
  "cooldownExpired b =
     (if cooldownTimer b then b\<lparr>cb_state := HALF_OPEN, cooldownTimer := False\<rparr> else b)"

definition reset :: "CircuitBreakerService \<Rightarrow> CircuitBreakerService" where
  "reset b = clearCooldownTimer (b\<lparr>cb_state := CLOSED, failureCount := 0\<rparr>)"

definition transitionToHalfOpen :: "CircuitBreakerService \<Rightarrow> CircuitBreakerService" where
  "transitionToHalfOpen b = (clearCooldownTimer b)\<lparr>cb_state := HALF_OPEN, failureCount := 0\<rparr>"

text \<open>
  Runs of breaker events: the two recording calls and the firing of the cooldown timer.
  \<open>breakerTrace\<close> lists the breaker after each event, starting with the initial one.
\<close>

datatype breakerEvent = RecordSuccess | RecordFailure | CooldownFires

fun breakerStep :: "breakerEvent \<Rightarrow> CircuitBreakerService \<Rightarrow> CircuitBreakerService" where
  "breakerStep RecordSuccess b = recordSuccess b"
| "breakerStep RecordFailure b = recordFailure b"
| "breakerStep CooldownFires b = cooldownExpired b"

fun breakerTrace :: "breakerEvent list \<Rightarrow> CircuitBreakerService \<Rightarrow> CircuitBreakerService list" where
  "breakerTrace [] b = [b]"
| "breakerTrace (e # es) b = b # breakerTrace es (breakerStep e b)"

fun failures :: "nat \<Rightarrow> CircuitBreakerService \<Rightarrow> CircuitBreakerService" where
  "failures 0 b = b"
| "failures (Suc n) b = recordFailure (failures n b)"

section \<open>Errors and decimal numerals\<close>

text \<open>
  A thrown JavaScript error as the write handler inspects it: \<open>code\<close>, \<open>message\<close> and
  \<open>stack\<close> may each be missing, and \<open>cause\<close>, \<open>lastError\<close> and \<open>originalError\<close> may hold a
  wrapped error, of which only \<open>code\<close> and \<open>message\<close> are read.
\<close>

record NestedError =
  ncode :: "string option"
  nmessage :: "string option"

record JsError =
  code :: "string option"
  message :: "string option"
  stack :: "string option"
  cause :: "NestedError option"
  lastError :: "NestedError option"
  originalError :: "NestedError option"

definition newError :: "string \<Rightarrow> JsError" where
  "newError msg = \<lparr> code = None, message = Some msg, stack = None,
                     cause = None, lastError = None, originalError = None \<rparr>"

text \<open>Template literals print numbers in decimal.\<close>

fun digits :: "nat \<Rightarrow> nat \<Rightarrow> string" where
  "digits 0 n = []"
| "digits (Suc fuel) n =
     (if n < 10 then [char_of (48 + n)]
      else digits fuel (n div 10) @ [char_of (48 + n mod 10)])"

definition showInt :: "int \<Rightarrow> string" where
  "showInt i = (if i < 0 then CHR ''-'' # digits (Suc (nat (- i))) (nat (- i))
                else digits (Suc (nat i)) (nat i))"

section \<open>Durable store (sqlite-manager.service.ts)\<close>

text \<open>
  The enum \<open>RecoveryStatus\<close> of \<open>enums/recovery-status.enum\<close>, with the three members the
  store writes into the \<open>status\<close> column.
\<close>

datatype RecoveryStatus = PENDING | RECOVERING | SENT

text \<open>
  The payload \<open>Car\<close> and a row \<open>PendingCar\<close> of table \<open>pending_cars\<close>. Numbers are
  integers here (the generator draws year and price with \<open>randomInt\<close>; timestamps are
  milliseconds). A nullable column is an \<open>option\<close>. The columns \<open>id\<close>, \<open>year\<close>, \<open>price\<close>
  and \<open>location\<close> carry the suffix \<open>_col\<close>, their names being taken.
\<close>

record Car =
  normalizedMake :: string
  normalizedModel :: string
  year :: int
  price :: int
  location :: string

record PendingCar =
  id_col :: string
  normalized_make :: string
  normalized_model :: string
  year_col :: int
  price_col :: int
  location_col :: string
  created_at :: int
  status :: RecoveryStatus
  retry_count :: int
  recovery_instance :: "string option"
  recovery_started_at :: "int option"
  redis_job_id :: "string option"

text \<open>
  The fields of \<open>SqliteManagerService\<close>. \<open>db\<close> is \<open>None\<close> for the \<open>null\<close> handle and
  otherwise holds the rows of \<open>pending_cars\<close> in insertion (rowid) order. \<open>flushTimer\<close> is
  an armed timer or \<open>null\<close>.
\<close>

record SqliteManagerService =
  db :: "PendingCar list option"
  writeBuffer :: "Car list"
  flushTimer :: bool
  isShuttingDown :: bool
  instanceId :: string

definition batchSize :: nat where
  "batchSize = 50"

text \<open>
  What a database call meets outside the program: the clock (\<open>Date.now()\<close>), the random
  suffix of the \<open>i\<close>-th generated id, and whether the statement is rejected (busy, locked,
  I/O error).
\<close>

record DbEnv =
  now :: int
  randomSuffix :: "nat \<Rightarrow> string"
  dbFails :: bool

definition sqliteError :: JsError where
  "sqliteError = (newError ''SQLITE_ERROR'')\<lparr>code := Some ''SQLITE_ERROR''\<rparr>"

text \<open>The row \<open>flushBuffer\<close> inserts for the \<open>i\<close>-th car of a batch.\<close>

definition newRow :: "string \<Rightarrow> DbEnv \<Rightarrow> nat \<Rightarrow> Car \<Rightarrow> PendingCar" where
  "newRow inst env i car =
     \<lparr> id_col = inst @ ''-'' @ showInt (now env) @ ''-'' @ showInt (int i) @ ''-'' @ randomSuffix env i,
       normalized_make = normalizedMake car,
       normalized_model = normalizedModel car,
       year_col = year car,
       price_col = price car,
       location_col = location car,
       created_at = now env + int i,
       status = PENDING,
       retry_count = 0,
       recovery_instance = None,
       recovery_started_at = None,
       redis_job_id = None \<rparr>"

definition batchRows :: "string \<Rightarrow> DbEnv \<Rightarrow> Car list \<Rightarrow> PendingCar list" where
  "batchRows inst env cars = map (\<lambda>(i, car). newRow inst env i car) (zip [0..<length cars] cars)"

text \<open>
  \<open>flushBuffer\<close>: nothing to do on an empty buffer; otherwise the timer is cancelled and the
  buffer taken. A missing handle throws with the batch already taken from the buffer. The
  batch is inserted in one transaction; a rejected statement or an id that breaks the
  primary key rolls the transaction back, puts the batch back in front of the buffer and
  rethrows.
\<close>

definition flushBuffer :: "DbEnv \<Rightarrow> SqliteManagerService \<Rightarrow> (JsError + unit) \<times> SqliteManagerService" where
  "flushBuffer env s =
     (if writeBuffer s = [] then (Inr (), s)
      else
        let carsToWrite = writeBuffer s;
            s1 = s\<lparr>flushTimer := False, writeBuffer := []\<rparr>
        in case db s1 of
             None \<Rightarrow> (Inl (newError ''Database not initialized''), s1)
           | Some rows \<Rightarrow>
               let new = batchRows (instanceId s1) env carsToWrite in
               if dbFails env \<or> \<not> distinct (map id_col (rows @ new))
               then (Inl sqliteError, s1\<lparr>writeBuffer := carsToWrite @ writeBuffer s1\<rparr>)
               else (Inr (), s1\<lparr>db := Some (rows @ new)\<rparr>))"

definition saveCar :: "DbEnv \<Rightarrow> Car \<Rightarrow> SqliteManagerService \<Rightarrow> (JsError + unit) \<times> SqliteManagerService" where
  "saveCar env car s =
     (if isShuttingDown s then (Inr (), s)
      else
        let s1 = s\<lparr>writeBuffer := writeBuffer s @ [car]\<rparr> in
        if length (writeBuffer s1) \<ge> batchSize then flushBuffer env s1
        else (Inr (), (if \<not> flushTimer s1 then s1\<lparr>flushTimer := True\<rparr> else s1)))"

text \<open>
  \<open>getAndMarkPendingCars\<close>: one statement inside \<open>BEGIN IMMEDIATE\<close> ... \<open>COMMIT\<close>. The CTE
  takes the ids of the first \<open>limit\<close> pending rows by \<open>created_at\<close> (rows of equal
  \<open>created_at\<close> in table order); the \<open>UPDATE\<close> marks every row whose id is among them and
  whose status is still pending; \<open>RETURNING *\<close> gives the rows as updated. \<open>limit\<close> is
  the integer the caller binds to \<open>LIMIT ?\<close>, unchecked: SQLite reads a negative \<open>LIMIT\<close> as
  no limit at all. A rejected statement rolls back and rethrows.
\<close>

definition sqlLimit :: "int \<Rightarrow> 'a list \<Rightarrow> 'a list" where
  "sqlLimit limit xs = (if limit < 0 then xs else take (nat limit) xs)"

definition selected_cars :: "int \<Rightarrow> PendingCar list \<Rightarrow> string list" where
  "selected_cars limit rows =
     map id_col (sqlLimit limit (sort_key created_at (filter (\<lambda>r. status r = PENDING) rows)))"

definition claimRow :: "string \<Rightarrow> int \<Rightarrow> PendingCar \<Rightarrow> PendingCar" where
  "claimRow inst t r =
     r\<lparr>status := RECOVERING, recovery_instance := Some inst, recovery_started_at := Some t\<rparr>"

definition claimHit :: "string list \<Rightarrow> PendingCar \<Rightarrow> bool" where
  "claimHit sel r = (id_col r \<in> set sel \<and> status r = PENDING)"

definition getAndMarkPendingCars ::
  "DbEnv \<Rightarrow> int \<Rightarrow> string \<Rightarrow> SqliteManagerService
     \<Rightarrow> (JsError + PendingCar list) \<times> SqliteManagerService" where
  "getAndMarkPendingCars env limit inst s =
     (case db s of
        None \<Rightarrow> (Inl (newError ''Database not initialized''), s)
      | Some rows \<Rightarrow>
          if dbFails env then (Inl sqliteError, s)
          else
            let sel = selected_cars limit rows;
                claimedCars = map (claimRow inst (now env)) (filter (claimHit sel) rows)
            in (Inr claimedCars,
                s\<lparr>db := Some (map (\<lambda>r. if claimHit sel r then claimRow inst (now env) r else r) rows)\<rparr>))"

text \<open>
  \<open>markCarsAsSent\<close> and \<open>markCarsAsPending\<close> run one \<open>UPDATE ... WHERE id = ?\<close> per listed
  id, each committed on its own. \<open>failAt = Some k\<close> says that the \<open>k\<close>-th statement
  (counting from 0) is rejected: the statements before it have taken effect and the call
  throws. \<open>redisJobIds[i] || null\<close> stores \<open>NULL\<close> for a missing or empty job id.
\<close>

definition updateWhereId :: "(PendingCar \<Rightarrow> PendingCar) \<Rightarrow> string \<Rightarrow> PendingCar list \<Rightarrow> PendingCar list" where
  "updateWhereId f carId rows = map (\<lambda>r. if id_col r = carId then f r else r) rows"

definition jobIdAt :: "string list \<Rightarrow> nat \<Rightarrow> string option" where
  "jobIdAt redisJobIds i =
     (if i < length redisJobIds \<and> redisJobIds ! i \<noteq> [] then Some (redisJobIds ! i) else None)"

definition sentRow :: "string option \<Rightarrow> PendingCar \<Rightarrow> PendingCar" where
  "sentRow job r = r\<lparr>status := SENT, redis_job_id := job\<rparr>"

definition pendingRow :: "PendingCar \<Rightarrow> PendingCar" where
  "pendingRow r = r\<lparr>status := PENDING, retry_count := retry_count r + 1\<rparr>"

fun markSentLoop :: "string list \<Rightarrow> nat \<Rightarrow> string list \<Rightarrow> PendingCar list \<Rightarrow> PendingCar list" where
  "markSentLoop redisJobIds i [] rows = rows"
| "markSentLoop redisJobIds i (carId # rest) rows =
     markSentLoop redisJobIds (Suc i) rest
       (updateWhereId (sentRow (jobIdAt redisJobIds i)) carId rows)"

fun markPendingLoop :: "string list \<Rightarrow> PendingCar list \<Rightarrow> PendingCar list" where
  "markPendingLoop [] rows = rows"
| "markPendingLoop (carId # rest) rows = markPendingLoop rest (updateWhereId pendingRow carId rows)"

definition executed :: "nat option \<Rightarrow> string list \<Rightarrow> string list" where
  "executed failAt carIds = (case failAt of None \<Rightarrow> carIds | Some k \<Rightarrow> take k carIds)"

definition loopResult :: "nat option \<Rightarrow> string list \<Rightarrow> JsError + unit" where
  "loopResult failAt carIds =
     (case failAt of None \<Rightarrow> Inr ()
      | Some k \<Rightarrow> if k < length carIds then Inl sqliteError else Inr ())"

definition markCarsAsSent ::
  "nat option \<Rightarrow> string list \<Rightarrow> string list \<Rightarrow> SqliteManagerService
     \<Rightarrow> (JsError + unit) \<times> SqliteManagerService" where
  "markCarsAsSent failAt carIds redisJobIds s =
     (case db s of
        None \<Rightarrow> (Inr (), s)
      | Some rows \<Rightarrow>
          if carIds = [] then (Inr (), s)
          else (loopResult failAt carIds,
                s\<lparr>db := Some (markSentLoop redisJobIds 0 (executed failAt carIds) rows)\<rparr>))"

definition markCarsAsPending ::
  "nat option \<Rightarrow> string list \<Rightarrow> SqliteManagerService \<Rightarrow> (JsError + unit) \<times> SqliteManagerService" where
  "markCarsAsPending failAt carIds s =
     (case db s of
        None \<Rightarrow> (Inr (), s)
      | Some rows \<Rightarrow>
          if carIds = [] then (Inr (), s)
          else (loopResult failAt carIds,
                s\<lparr>db := Some (markPendingLoop (executed failAt carIds) rows)\<rparr>))"

text \<open>
  \<open>cleanupStaleRecoveries\<close>: a single \<open>UPDATE\<close>; the comparison with a \<open>NULL\<close>
  \<open>recovery_started_at\<close> is not true, so such a row is not touched. The result is the
  number of rows the statement changed.
\<close>

definition isStale :: "int \<Rightarrow> PendingCar \<Rightarrow> bool" where
  "isStale cutoffTime r =
     (status r = RECOVERING \<and>
      (case recovery_started_at r of None \<Rightarrow> False | Some t \<Rightarrow> t < cutoffTime))"

definition staleRow :: "PendingCar \<Rightarrow> PendingCar" where
  "staleRow r = r\<lparr>status := PENDING, recovery_instance := None, recovery_started_at := None\<rparr>"

definition cleanupStaleRecoveries ::
  "DbEnv \<Rightarrow> int \<Rightarrow> SqliteManagerService \<Rightarrow> (JsError + int) \<times> SqliteManagerService" where
  "cleanupStaleRecoveries env maxAgeMs s =
     (case db s of
        None \<Rightarrow> (Inr 0, s)
      | Some rows \<Rightarrow>
          if dbFails env then (Inl sqliteError, s)
          else
            let cutoffTime = now env - maxAgeMs in
            (Inr (int (length (filter (isStale cutoffTime) rows))),
             s\<lparr>db := Some (map (\<lambda>r. if isStale cutoffTime r then staleRow r else r) rows)\<rparr>))"

text \<open>The rows of the store; a store without a handle has none to show.\<close>

definition records :: "SqliteManagerService \<Rightarrow> PendingCar list" where
  "records s = (case db s of None \<Rightarrow> [] | Some rows \<Rightarrow> rows)"

text \<open>
  The rows the CTE of \<open>getAndMarkPendingCars\<close> selects, before their ids are taken.
\<close>

definition oldestPending :: "int \<Rightarrow> PendingCar list \<Rightarrow> PendingCar list" where
  "oldestPending limit rows =
     sqlLimit limit (sort_key created_at (filter (\<lambda>r. status r = PENDING) rows))"

text \<open>
  \<open>touchesOnly I rows rows'\<close>: the table \<open>rows'\<close> has the rows of \<open>rows\<close> in place, with
  their ids, and differs from it at most in rows whose id is in \<open>I\<close>.
\<close>

definition touchesOnly :: "string set \<Rightarrow> PendingCar list \<Rightarrow> PendingCar list \<Rightarrow> bool" where
  "touchesOnly I rows rows' =
     (length rows' = length rows \<and>
      (\<forall>i < length rows. id_col (rows' ! i) = id_col (rows ! i)
                           \<and> (id_col (rows ! i) \<notin> I \<longrightarrow> rows' ! i = rows ! i)))"

section \<open>Sample data\<close>

text \<open>Concrete rows, stores and environments on which the operations are evaluated.\<close>

definition sampleCar :: Car where
  "sampleCar = \<lparr> normalizedMake = ''toyota'', normalizedModel = ''corolla'', year = 2020,
                 price = 15000, location = ''berlin'' \<rparr>"

definition sampleRow :: "string \<Rightarrow> int \<Rightarrow> RecoveryStatus \<Rightarrow> PendingCar" where
  "sampleRow i t st =
     \<lparr> id_col = i, normalized_make = ''toyota'', normalized_model = ''corolla'',
       year_col = 2020, price_col = 15000, location_col = ''berlin'', created_at = t,
       status = st, retry_count = 0, recovery_instance = None, recovery_started_at = None,
       redis_job_id = None \<rparr>"

definition sampleStore :: "PendingCar list \<Rightarrow> SqliteManagerService" where
  "sampleStore rows = \<lparr> db = Some rows, writeBuffer = [], flushTimer = False,
                        isShuttingDown = False, instanceId = ''instance-1-1000'' \<rparr>"

definition sampleEnv :: "int \<Rightarrow> DbEnv" where
  "sampleEnv t = \<lparr> now = t, randomSuffix = (\<lambda>i. ''k3x9q2m1z''), dbFails = False \<rparr>"

section \<open>State manager (state-manager.service.ts)\<close>

text \<open>The enum \<open>SeederState\<close> of \<open>enums/state.enum\<close>; the service holds one value of it.\<close>

datatype SeederState = REDIS_MODE | SQLITE_MODE

section \<open>Metrics (metrics.service.ts)\<close>

record FailoverSession =
  sessionId :: string
  masterFailureDetectedAt :: "int option"
  sentinelPromotionDetectedAt :: "int option"
  stateTransitionToSqliteAt :: "int option"
  stateTransitionToRedisAt :: "int option"
  recoveryStartedAt :: "int option"
  recoveryCompletedAt :: "int option"
  session_sqliteFallbackCount :: int
  isActive :: bool

datatype EventType =
  MASTER_FAILURE_DETECTED | SENTINEL_PROMOTION | STATE_TRANSITION_TO_SQLITE
  | STATE_TRANSITION_TO_REDIS | RECOVERY_STARTED | RECOVERY_COMPLETED

text \<open>
  An event as \<open>logEvent\<close> receives it: the type and the entries of \<open>details\<close> that carry
  data, each absent (\<open>None\<close>) where the caller does not set it. The random \<open>eventId\<close>, the
  ISO timestamp, the constant \<open>message\<close> and the formatted durations are left out.
\<close>

record FailoverEvent =
  eventType :: EventType
  ev_sessionId :: "string option"
  ev_previousState :: "SeederState option"
  ev_newState :: "SeederState option"
  ev_errorMessage :: "string option"
  ev_sqliteFallbackCount :: "int option"
  ev_durationMs :: "int option"
  ev_durations :: "(int option \<times> int option \<times> int option) option"
  ev_entriesRecovered :: "int option"
  ev_entriesFailed :: "int option"

definition event :: "EventType \<Rightarrow> FailoverEvent" where
  "event ty = \<lparr> eventType = ty, ev_sessionId = None, ev_previousState = None, ev_newState = None,
                 ev_errorMessage = None, ev_sqliteFallbackCount = None, ev_durationMs = None,
                 ev_durations = None, ev_entriesRecovered = None, ev_entriesFailed = None \<rparr>"

text \<open>
  The fields of \<open>MetricsService\<close>; \<open>logged\<close> is the sequence of events handed to
  \<open>logEvent\<close>, which writes each to the log stream and to the console.
\<close>

record MetricsService =
  currentSession :: "FailoverSession option"
  sqliteFallbackCount :: int
  totalFailoverSessions :: int
  logged :: "FailoverEvent list"

definition logEvent :: "FailoverEvent \<Rightarrow> MetricsService \<Rightarrow> MetricsService" where
  "logEvent e m = m\<lparr>logged := logged m @ [e]\<rparr>"

definition noActiveSession :: "MetricsService \<Rightarrow> bool" where
  "noActiveSession m = (case currentSession m of None \<Rightarrow> True | Some c \<Rightarrow> \<not> isActive c)"

definition newSession :: "int \<Rightarrow> int \<Rightarrow> FailoverSession" where
  "newSession n t =
     \<lparr> sessionId = ''failover-'' @ showInt n @ ''-'' @ showInt t,
       masterFailureDetectedAt = None, sentinelPromotionDetectedAt = None,
       stateTransitionToSqliteAt = None, stateTransitionToRedisAt = None,
       recoveryStartedAt = None, recoveryCompletedAt = None,
       session_sqliteFallbackCount = 0, isActive = True \<rparr>"

text \<open>\<open>x ? t - x : undefined\<close> on a nullable timestamp: a missing or zero one is falsy.\<close>

definition since :: "int \<Rightarrow> int option \<Rightarrow> int option" where
  "since t x = (case x of None \<Rightarrow> None | Some v \<Rightarrow> if v = 0 then None else Some (t - v))"

definition recordMasterFailure :: "int \<Rightarrow> string option \<Rightarrow> MetricsService \<Rightarrow> MetricsService" where
  "recordMasterFailure t errorMessage m =
     (let m1 =
        (if noActiveSession m then
           m\<lparr>totalFailoverSessions := totalFailoverSessions m + 1,
             currentSession :=
               Some ((newSession (totalFailoverSessions m + 1) t)\<lparr>masterFailureDetectedAt := Some t\<rparr>),
             sqliteFallbackCount := 0\<rparr>
         else m\<lparr>currentSession := map_option (\<lambda>c. c\<lparr>masterFailureDetectedAt := Some t\<rparr>) (currentSession m)\<rparr>)
      in logEvent ((event MASTER_FAILURE_DETECTED)
                    \<lparr>ev_sessionId := map_option sessionId (currentSession m1),
                     ev_errorMessage := errorMessage\<rparr>) m1)"

definition recordSentinelPromotion :: "int \<Rightarrow> MetricsService \<Rightarrow> MetricsService" where
  "recordSentinelPromotion t m =
     (let m1 =
        (if noActiveSession m then
           m\<lparr>totalFailoverSessions := totalFailoverSessions m + 1,
             currentSession :=
               Some ((newSession (totalFailoverSessions m + 1) t)
                      \<lparr>sentinelPromotionDetectedAt := Some t,
                       session_sqliteFallbackCount := sqliteFallbackCount m\<rparr>)\<rparr>
         else m);
          m2 = m1\<lparr>currentSession :=
                    map_option (\<lambda>c. c\<lparr>sentinelPromotionDetectedAt := Some t\<rparr>) (currentSession m1)\<rparr>;
          duration = (case currentSession m2 of None \<Rightarrow> None
                      | Some c \<Rightarrow> since t (masterFailureDetectedAt c))
      in logEvent ((event SENTINEL_PROMOTION)
                    \<lparr>ev_sessionId := map_option sessionId (currentSession m2),
                     ev_durationMs := duration\<rparr>) m2)"

definition recordStateTransitionToSqlite :: "int \<Rightarrow> SeederState \<Rightarrow> MetricsService \<Rightarrow> MetricsService" where
  "recordStateTransitionToSqlite t previousState m =
     (let m1 =
        (if noActiveSession m then
           m\<lparr>totalFailoverSessions := totalFailoverSessions m + 1,
             currentSession :=
               Some ((newSession (totalFailoverSessions m + 1) t)
                      \<lparr>masterFailureDetectedAt := Some t, stateTransitionToSqliteAt := Some t\<rparr>),
             sqliteFallbackCount := 0\<rparr>
         else m\<lparr>currentSession :=
                  map_option (\<lambda>c. c\<lparr>stateTransitionToSqliteAt := Some t\<rparr>) (currentSession m)\<rparr>);
          duration = (case currentSession m1 of None \<Rightarrow> None
                      | Some c \<Rightarrow> since t (masterFailureDetectedAt c))
      in logEvent ((event STATE_TRANSITION_TO_SQLITE)
                    \<lparr>ev_sessionId := map_option sessionId (currentSession m1),
                     ev_previousState := Some previousState,
                     ev_newState := Some SQLITE_MODE,
                     ev_durationMs := duration\<rparr>) m1)"

definition recordStateTransitionToRedis :: "int \<Rightarrow> SeederState \<Rightarrow> MetricsService \<Rightarrow> MetricsService" where
  "recordStateTransitionToRedis t previousState m =
     (let m1 =
        (if noActiveSession m then
           m\<lparr>totalFailoverSessions := totalFailoverSessions m + 1,
             currentSession :=
               Some ((newSession (totalFailoverSessions m + 1) t)
                      \<lparr>stateTransitionToRedisAt := Some t,
                       session_sqliteFallbackCount := sqliteFallbackCount m\<rparr>)\<rparr>
         else m);
          m2 = m1\<lparr>currentSession :=
                    map_option (\<lambda>c. c\<lparr>stateTransitionToRedisAt := Some t\<rparr>) (currentSession m1)\<rparr>;
          durations = (case currentSession m2 of None \<Rightarrow> None
                       | Some c \<Rightarrow> Some (since t (masterFailureDetectedAt c),
                                         since t (sentinelPromotionDetectedAt c),
                                         since t (stateTransitionToSqliteAt c)));
          m3 = logEvent ((event STATE_TRANSITION_TO_REDIS)
                    \<lparr>ev_sessionId := map_option sessionId (currentSession m2),
                     ev_previousState := Some previousState,
                     ev_newState := Some REDIS_MODE,
                     ev_sqliteFallbackCount := map_option session_sqliteFallbackCount (currentSession m2),
                     ev_durations := durations\<rparr>) m2
      in m3\<lparr>currentSession := None\<rparr>)"

definition incrementSqliteFallbackCount :: "MetricsService \<Rightarrow> MetricsService" where
  "incrementSqliteFallbackCount m =
     (let m1 = m\<lparr>sqliteFallbackCount := sqliteFallbackCount m + 1\<rparr>
      in m1\<lparr>currentSession :=
              map_option (\<lambda>c. c\<lparr>session_sqliteFallbackCount := sqliteFallbackCount m1\<rparr>)
                (currentSession m1)\<rparr>)"

definition getSqliteFallbackCount :: "MetricsService \<Rightarrow> int" where
  "getSqliteFallbackCount m = sqliteFallbackCount m"

definition recordRecoveryStarted :: "int \<Rightarrow> MetricsService \<Rightarrow> MetricsService" where
  "recordRecoveryStarted t m =
     (if noActiveSession m then m
      else
        let m1 = m\<lparr>currentSession :=
                     map_option (\<lambda>c. c\<lparr>recoveryStartedAt := Some t\<rparr>) (currentSession m)\<rparr>
        in logEvent ((event RECOVERY_STARTED)
                      \<lparr>ev_sessionId := map_option sessionId (currentSession m1),
                       ev_sqliteFallbackCount :=
                         map_option session_sqliteFallbackCount (currentSession m1)\<rparr>) m1)"

definition recordRecoveryCompleted :: "int \<Rightarrow> int \<Rightarrow> int option \<Rightarrow> MetricsService \<Rightarrow> MetricsService" where
  "recordRecoveryCompleted t entriesRecovered entriesFailed m =
     (if noActiveSession m then m
      else
        let m1 = m\<lparr>currentSession :=
                     map_option (\<lambda>c. c\<lparr>recoveryCompletedAt := Some t\<rparr>) (currentSession m)\<rparr>;
            duration = (case currentSession m1 of None \<Rightarrow> None
                        | Some c \<Rightarrow> since t (recoveryStartedAt c))
        in logEvent ((event RECOVERY_COMPLETED)
                      \<lparr>ev_sessionId := map_option sessionId (currentSession m1),
                       ev_entriesRecovered := Some entriesRecovered,
                       ev_entriesFailed := entriesFailed,
                       ev_durationMs := duration\<rparr>) m1)"

definition newMetrics :: MetricsService where
  "newMetrics = \<lparr> currentSession = None, sqliteFallbackCount = 0, totalFailoverSessions = 0,
                  logged = [] \<rparr>"

text \<open>The calls of the metrics service that touch the session or the counter.\<close>

datatype metricsCall =
  MasterFailure int "string option" | SentinelPromotion int | TransitionToSqlite int SeederState
  | TransitionToRedis int SeederState | IncrementFallback | RecoveryStarted int
  | RecoveryCompleted int int "int option"

fun metricsStep :: "metricsCall \<Rightarrow> MetricsService \<Rightarrow> MetricsService" where
  "metricsStep (MasterFailure t e) m = recordMasterFailure t e m"
| "metricsStep (SentinelPromotion t) m = recordSentinelPromotion t m"
| "metricsStep (TransitionToSqlite t p) m = recordStateTransitionToSqlite t p m"
| "metricsStep (TransitionToRedis t p) m = recordStateTransitionToRedis t p m"
| "metricsStep IncrementFallback m = incrementSqliteFallbackCount m"
| "metricsStep (RecoveryStarted t) m = recordRecoveryStarted t m"
| "metricsStep (RecoveryCompleted t r f) m = recordRecoveryCompleted t r f m"

fun metricsRun :: "metricsCall list \<Rightarrow> MetricsService \<Rightarrow> MetricsService" where
  "metricsRun [] m = m"
| "metricsRun (c # cs) m = metricsRun cs (metricsStep c m)"

definition sessionInSync :: "MetricsService \<Rightarrow> bool" where
  "sessionInSync m =
     (case currentSession m of None \<Rightarrow> True
      | Some c \<Rightarrow> \<not> isActive c \<or> session_sqliteFallbackCount c = sqliteFallbackCount m)"

section \<open>The wired services and the remote side\<close>

text \<open>
  What is sent to the remote: a job \<open>car\<close> on the queue, the job \<open>health-check-test\<close>, a
  \<open>PING\<close> on the client. A remote call succeeds, fails, or does not answer before the
  deadline it is raced against.
\<close>

datatype RemoteCall = AddCar Car | AddHealthCheck | Ping

datatype RemoteOutcome = Succeeds | Fails | TimesOut

text \<open>
  The fields of \<open>RecoveryManagerService\<close> that the modelled methods read: whether
  \<open>setQueue\<close> and \<open>setRedisClient\<close> have run, the chunk size and the instance id. The
  constructor sets \<open>chunkSize\<close> to \<open>parseInt(RECOVERY_CHUNK_SIZE || '50', 10) || 50\<close>: any
  integer but zero, a negative one included.
\<close>

record RecoveryManagerService =
  rm_queue :: bool
  redisClient :: bool
  chunkSize :: int
  rm_instanceId :: string

definition newChunkSize :: "int option \<Rightarrow> int" where
  "newChunkSize envChunkSize = envOrDefault envChunkSize 50"

text \<open>
  The singletons the container wires together, with the state manager's \<open>currentState\<close>,
  whether the write handler's \<open>queue\<close> is set, and the calls made on the remote so far.
\<close>

record App =
  stateManager :: SeederState
  circuitBreaker :: CircuitBreakerService
  sqliteManager :: SqliteManagerService
  metrics :: MetricsService
  wh_queue :: bool
  recoveryManager :: RecoveryManagerService
  remoteCalls :: "RemoteCall list"

section \<open>Write handler (write-handler.service.ts)\<close>

fun startsWith :: "string \<Rightarrow> string \<Rightarrow> bool" where
  "startsWith s [] = True"
| "startsWith [] (c # cs) = False"
| "startsWith (x # xs) (c # cs) = (x = c \<and> startsWith xs cs)"

fun includes_str :: "string \<Rightarrow> string \<Rightarrow> bool" where
  "includes_str [] sub = (sub = [])"
| "includes_str (x # xs) sub = (startsWith (x # xs) sub \<or> includes_str xs sub)"

text \<open>\<open>toLowerCase\<close> on the ASCII letters; other characters are kept.\<close>

definition toLowerCase :: "string \<Rightarrow> string" where
  "toLowerCase s =
     map (\<lambda>c. let n = (of_char c :: nat) in if 65 \<le> n \<and> n \<le> 90 then char_of (n + 32) else c) s"

definition connectionErrorCodes :: "string list" where
  "connectionErrorCodes = [''ECONNREFUSED'', ''ETIMEDOUT'', ''ENOTFOUND'', ''ECONNRESET'', ''EPIPE'']"

definition connectionErrorMessages :: "string list" where
  "connectionErrorMessages =
     [''connection lost'', ''connection closed'', ''redis connection failed'',
      ''connect econnrefused'', ''connect etimedout'',
      ''stream isn'' @ [CHR 0x27] @ ''t writeable'', ''stream is not writeable'',
      ''enableofflinequeue'', ''offline queue'', ''writeable'', ''getaddrinfo'', ''enotfound'']"

definition lowerOrEmpty :: "string option \<Rightarrow> string" where
  "lowerOrEmpty x = (case x of None \<Rightarrow> [] | Some m \<Rightarrow> toLowerCase m)"

definition orEmpty :: "string option \<Rightarrow> string" where
  "orEmpty x = (case x of None \<Rightarrow> [] | Some c \<Rightarrow> c)"

definition nestedErrorOf :: "JsError \<Rightarrow> NestedError option" where
  "nestedErrorOf error =
     (case cause error of Some n \<Rightarrow> Some n
      | None \<Rightarrow> (case lastError error of Some n \<Rightarrow> Some n | None \<Rightarrow> originalError error))"

definition isRedisConnectionError :: "JsError \<Rightarrow> bool" where
  "isRedisConnectionError error =
     (let errorMessage = lowerOrEmpty (message error);
          errorCode = orEmpty (code error);
          nestedError = nestedErrorOf error
      in if errorCode \<in> set connectionErrorCodes then True
         else if (case nestedError of None \<Rightarrow> False
                  | Some n \<Rightarrow> orEmpty (ncode n) \<in> set connectionErrorCodes) then True
         else if list_ex (\<lambda>msg. includes_str errorMessage msg) connectionErrorMessages then True
         else if (case nestedError of None \<Rightarrow> False
                  | Some n \<Rightarrow> list_ex (\<lambda>msg. includes_str (lowerOrEmpty (nmessage n)) msg)
                                connectionErrorMessages) then True
         else
           let errorStack = lowerOrEmpty (stack error)
           in includes_str errorStack ''getaddrinfo'' \<or> includes_str errorStack ''enotfound''
              \<or> includes_str errorStack ''econnrefused'' \<or> includes_str errorStack ''etimedout'')"

text \<open>
  \<open>writeToSqlite\<close>: \<open>saveCar\<close> is tried for \<open>attempt = 0, 1, 2\<close>; the first success returns,
  and the error of the last attempt is thrown. \<open>envs attempt\<close> is what the \<open>attempt\<close>-th
  call meets. The waits between attempts take time only.
\<close>

definition maxRetries :: nat where
  "maxRetries = 2"

fun writeToSqliteFrom ::
  "(nat \<Rightarrow> DbEnv) \<Rightarrow> Car \<Rightarrow> nat \<Rightarrow> nat \<Rightarrow> SqliteManagerService
     \<Rightarrow> (JsError + unit) \<times> SqliteManagerService" where
  "writeToSqliteFrom envs car attempt 0 s = saveCar (envs attempt) car s"
| "writeToSqliteFrom envs car attempt (Suc retriesLeft) s =
     (case saveCar (envs attempt) car s of
        (Inr u, s') \<Rightarrow> (Inr (), s')
      | (Inl e, s') \<Rightarrow> writeToSqliteFrom envs car (Suc attempt) retriesLeft s')"

definition writeToSqlite :: "(nat \<Rightarrow> DbEnv) \<Rightarrow> Car \<Rightarrow> App \<Rightarrow> (JsError + unit) \<times> App" where
  "writeToSqlite envs car a =
     (case writeToSqliteFrom envs car 0 maxRetries (sqliteManager a) of
        (res, s') \<Rightarrow> (res, a\<lparr>sqliteManager := s'\<rparr>))"

text \<open>
  \<open>writeToRedis\<close>. \<open>enq\<close> is what \<open>queue.add('car', car, ...)\<close> does: it throws an error or
  returns a job with an optional id. \<open>t\<close> is the clock the metrics read.
\<close>

definition writeToRedis ::
  "(JsError + string option) \<Rightarrow> (nat \<Rightarrow> DbEnv) \<Rightarrow> int \<Rightarrow> Car \<Rightarrow> App \<Rightarrow> (JsError + unit) \<times> App" where
  "writeToRedis enq envs t car a =
     (if \<not> wh_queue a then (Inl (newError ''Queue not initialized''), a)
      else if isOpen (circuitBreaker a) then
        writeToSqlite envs car (a\<lparr>stateManager := SQLITE_MODE\<rparr>)
      else
        let a1 = a\<lparr>remoteCalls := remoteCalls a @ [AddCar car]\<rparr> in
        case enq of
          Inr jobId \<Rightarrow>
            let a2 = a1\<lparr>circuitBreaker := recordSuccess (circuitBreaker a1)\<rparr> in
            if stateManager a2 = SQLITE_MODE then
              (Inr (), a2\<lparr>stateManager := REDIS_MODE,
                          metrics := recordStateTransitionToRedis t (stateManager a2) (metrics a2)\<rparr>)
            else (Inr (), a2)
        | Inl error \<Rightarrow>
            if isRedisConnectionError error then
              let a2 = a1\<lparr>circuitBreaker := recordFailure (circuitBreaker a1)\<rparr>;
                  a3 = (if isOpen (circuitBreaker a2) then
                          let currentStateBefore = stateManager a2;
                              m1 = (if currentStateBefore = REDIS_MODE
                                    then recordMasterFailure t (message error) (metrics a2)
                                    else metrics a2)
                          in a2\<lparr>stateManager := SQLITE_MODE,
                                metrics := recordStateTransitionToSqlite t currentStateBefore m1\<rparr>
                        else a2);
                  a4 = a3\<lparr>metrics := incrementSqliteFallbackCount (metrics a3)\<rparr>
              in writeToSqlite envs car a4
            else (Inl error, a1))"

definition writeCar ::
  "(JsError + string option) \<Rightarrow> (nat \<Rightarrow> DbEnv) \<Rightarrow> int \<Rightarrow> Car \<Rightarrow> App \<Rightarrow> (JsError + unit) \<times> App" where
  "writeCar enq envs t car a =
     (let currentState = stateManager a;
          circuitState = cb_state (circuitBreaker a)
      in if circuitState = HALF_OPEN then writeToRedis enq envs t car a
         else if currentState = REDIS_MODE then writeToRedis enq envs t car a
         else writeToSqlite envs car a)"

section \<open>Recovery manager (recovery-manager.service.ts)\<close>

text \<open>
  \<open>testRedisWrite\<close>: without a queue \<open>false\<close>; otherwise the sentinel job is added, raced
  against a 3 s timer, and only its success gives \<open>true\<close>.
\<close>

definition testRedisWrite :: "RemoteOutcome \<Rightarrow> App \<Rightarrow> bool \<times> App" where
  "testRedisWrite probe a =
     (if \<not> rm_queue (recoveryManager a) then (False, a)
      else (probe = Succeeds, a\<lparr>remoteCalls := remoteCalls a @ [AddHealthCheck]\<rparr>))"

text \<open>
  \<open>isRedisAvailable\<close>: \<open>false\<close> at once without a client or with the breaker open. Else
  the ping is sent and raced against a 2 s timer; its failure is caught and logged, and
  in either case the method goes on to the write test when the queue is set.
\<close>

definition isRedisAvailable :: "RemoteOutcome \<Rightarrow> RemoteOutcome \<Rightarrow> App \<Rightarrow> bool \<times> App" where
  "isRedisAvailable ping probe a =
     (if \<not> redisClient (recoveryManager a) then (False, a)
      else if isOpen (circuitBreaker a) then (False, a)
      else
        let a1 = a\<lparr>remoteCalls := remoteCalls a @ [Ping]\<rparr> in
        if rm_queue (recoveryManager a1) then testRedisWrite probe a1
        else (False, a1))"

text \<open>
  One turn of the \<open>while\<close> loop of \<open>recoverPendingEntries\<close>. What the turn meets: the
  clock and fate of the claim, the outcomes of ping and write test, the outcome of
  \<open>queue.add\<close> for the \<open>k\<close>-th claimed car, and the statements at which
  \<open>markCarsAsSent\<close>, \<open>markCarsAsPending\<close> for the failed cars and the reverting
  \<open>markCarsAsPending\<close> are rejected, if any.
\<close>

record DrainEnv =
  claimEnv :: DbEnv
  pingOutcome :: RemoteOutcome
  probeOutcome :: RemoteOutcome
  addOutcome :: "nat \<Rightarrow> JsError + string option"
  sentFailAt :: "nat option"
  pendingFailAt :: "nat option"
  revertFailAt :: "nat option"

definition carData :: "PendingCar \<Rightarrow> Car" where
  "carData car = \<lparr> normalizedMake = normalized_make car, normalizedModel = normalized_model car,
                   year = year_col car, price = price_col car, location = location_col car \<rparr>"

text \<open>
  The inner \<open>for\<close> loop: the successful entries \<open>(carId, jobId)\<close> with \<open>job.id || ''\<close>, and
  the ids of the cars whose \<open>queue.add\<close> threw.
\<close>

fun addAll :: "(nat \<Rightarrow> JsError + string option) \<Rightarrow> nat \<Rightarrow> PendingCar list
                 \<Rightarrow> (string \<times> string) list \<times> string list" where
  "addAll outcome k [] = ([], [])"
| "addAll outcome k (car # cars) =
     (case addAll outcome (Suc k) cars of
        (successfulEntries, failedCarIds) \<Rightarrow>
          (case outcome k of
             Inr job \<Rightarrow> ((id_col car, orEmpty job) # successfulEntries, failedCarIds)
           | Inl e \<Rightarrow> (successfulEntries, id_col car # failedCarIds)))"

text \<open>
  How a turn ends: the loop goes on (\<open>Continue\<close>); a \<open>break\<close> outside the \<open>catch\<close> leaves
  it, with nothing claimed or the remote unavailable (\<open>Break\<close>); the \<open>catch\<close> of the batch
  has run and its \<open>break\<close> leaves it (\<open>Caught\<close>); or an error leaves the method
  (\<open>Throw\<close>).
\<close>

datatype turnEnd = Continue | Break | Caught | Throw JsError

text \<open>
  The \<open>catch\<close> of the batch and the branch for an unavailable remote do the same: all
  claimed cars are marked pending and counted as failed, and the loop is left, which
  \<open>ending\<close> records as \<open>Caught\<close> or \<open>Break\<close>; an error of this \<open>markCarsAsPending\<close> leaves
  the method.
\<close>

definition revertAll ::
  "turnEnd \<Rightarrow> DrainEnv \<Rightarrow> PendingCar list \<Rightarrow> App \<Rightarrow> int \<times> int
     \<Rightarrow> turnEnd \<times> App \<times> int \<times> int" where
  "revertAll ending env carsToRecover a totals =
     (let carIds = map id_col carsToRecover in
      case markCarsAsPending (revertFailAt env) carIds (sqliteManager a) of
        (Inl e, s') \<Rightarrow> (Throw e, a\<lparr>sqliteManager := s'\<rparr>, totals)
      | (Inr u, s') \<Rightarrow>
          (ending, a\<lparr>sqliteManager := s'\<rparr>, fst totals, snd totals + int (length carIds)))"

definition drainTurn :: "DrainEnv \<Rightarrow> App \<Rightarrow> int \<times> int \<Rightarrow> turnEnd \<times> App \<times> int \<times> int" where
  "drainTurn env a totals =
     (case getAndMarkPendingCars (claimEnv env) (chunkSize (recoveryManager a))
             (rm_instanceId (recoveryManager a)) (sqliteManager a) of
        (Inl e, s') \<Rightarrow> (Throw e, a\<lparr>sqliteManager := s'\<rparr>, totals)
      | (Inr carsToRecover, s') \<Rightarrow>
          let a1 = a\<lparr>sqliteManager := s'\<rparr> in
          if carsToRecover = [] then (Break, a1, totals)
          else
            case isRedisAvailable (pingOutcome env) (probeOutcome env) a1 of
              (False, a2) \<Rightarrow> revertAll Break env carsToRecover a2 totals
            | (True, a2) \<Rightarrow>
                let (successfulEntries, failedCarIds) = addAll (addOutcome env) 0 carsToRecover;
                    a3 = a2\<lparr>remoteCalls := remoteCalls a2 @ map (\<lambda>car. AddCar (carData car)) carsToRecover\<rparr>
                in
                case (if successfulEntries \<noteq> []
                      then markCarsAsSent (sentFailAt env) (map fst successfulEntries)
                             (map snd successfulEntries) (sqliteManager a3)
                      else (Inr (), sqliteManager a3)) of
                  (Inl e, s1) \<Rightarrow>
                    revertAll Caught env carsToRecover (a3\<lparr>sqliteManager := s1\<rparr>) totals
                | (Inr u, s1) \<Rightarrow>
                    let totalRecovered = fst totals + int (length successfulEntries) in
                    case (if failedCarIds \<noteq> []
                          then markCarsAsPending (pendingFailAt env) failedCarIds s1
                          else (Inr (), s1)) of
                      (Inl e, s2) \<Rightarrow>
                        revertAll Caught env carsToRecover (a3\<lparr>sqliteManager := s2\<rparr>)
                          (totalRecovered, snd totals)
                    | (Inr u, s2) \<Rightarrow>
                        (Continue, a3\<lparr>sqliteManager := s2\<rparr>, totalRecovered,
                         snd totals + int (length failedCarIds)))"

definition sampleApp :: App where
  "sampleApp =
     \<lparr> stateManager = REDIS_MODE, circuitBreaker = newCircuitBreaker None None,
       sqliteManager = sampleStore [], metrics = newMetrics, wh_queue = True,
       recoveryManager = \<lparr> rm_queue = True, redisClient = True, chunkSize = 50,
                           rm_instanceId = ''instance-1-1000'' \<rparr>,
       remoteCalls = [] \<rparr>"

definition refused :: JsError where
  "refused = (newError ''connect ECONNREFUSED 127.0.0.1:6379'')\<lparr>code := Some ''ECONNREFUSED''\<rparr>"

definition sampleEnvs :: "nat \<Rightarrow> DbEnv" where
  "sampleEnvs attempt = sampleEnv 1000"

definition addsSucceed :: "nat \<Rightarrow> JsError + string option" where
  "addsSucceed k = Inr (Some ''7'')"

definition firstAddSucceeds :: "nat \<Rightarrow> JsError + string option" where
  "firstAddSucceeds k = (if k = 0 then Inr (Some ''7'') else Inl refused)"

definition sampleDrainEnv :: "(nat \<Rightarrow> JsError + string option) \<Rightarrow> nat option \<Rightarrow> DrainEnv" where
  "sampleDrainEnv outcome sf =
     \<lparr> claimEnv = sampleEnv 1000, pingOutcome = Succeeds, probeOutcome = Succeeds,
       addOutcome = outcome, sentFailAt = sf, pendingFailAt = None, revertFailAt = None \<rparr>"

section \<open>Properties of the circuit breaker\<close>

lemma recordFailure_count: "failureCount (recordFailure b) = failureCount b + 1"
  by (simp add: recordFailure_def open_breaker_def startCooldown_def clearCooldownTimer_def Let_def)

lemma recordFailure_threshold: "failureThreshold (recordFailure b) = failureThreshold b"
  by (simp add: recordFailure_def open_breaker_def startCooldown_def clearCooldownTimer_def Let_def)

lemma failures_count: "failureCount (failures n b) = failureCount b + int n"
  by (induction n) (simp_all add: recordFailure_count)

lemma failures_threshold: "failureThreshold (failures n b) = failureThreshold b"
  by (induction n) (simp_all add: recordFailure_threshold)

lemma failures_state:
  assumes "cb_state b = CLOSED" and "failureCount b = 0"
  shows "cb_state (failures n b) =
           (if 1 \<le> n \<and> failureThreshold b \<le> int n then OPEN else CLOSED)"
proof (induction n)
  case 0
  then show ?case using assms by simp
next
  case (Suc n)
  have c: "failureCount (failures n b) = int n"
    using assms by (simp add: failures_count)
  have t: "failureThreshold (failures n b) = failureThreshold b"
    by (rule failures_threshold)
  show ?case
  proof (cases "1 \<le> n \<and> failureThreshold b \<le> int n")
    case True
    with Suc have "cb_state (failures n b) = OPEN" by simp
    then have "cb_state (failures (Suc n) b) = OPEN"
      by (simp add: recordFailure_def Let_def)
    with True show ?thesis by simp
  next
    case False
    with Suc have "cb_state (failures n b) = CLOSED" by simp
    then show ?thesis using c t False
      by (auto simp: recordFailure_def Let_def open_breaker_def startCooldown_def
          clearCooldownTimer_def)
  qed
qed

text \<open>
  C4. In \<open>CLOSED\<close>, \<open>recordFailure\<close> adds one to \<open>failureCount\<close> and opens the breaker,
  arming the cooldown timer, exactly when the new count has reached the threshold;
  \<open>recordSuccess\<close> resets the count to 0. In \<open>HALF_OPEN\<close>, \<open>recordSuccess\<close> closes the
  breaker with count 0 and no timer, \<open>recordFailure\<close> reopens it with the timer armed.
  The constructor's default threshold is 5. On a run of \<open>n\<close> failures from
  \<open>CLOSED\<close> with count 0 the count is \<open>n\<close> (so it grows by one with each call) and the
  breaker is \<open>OPEN\<close> from the call on that reaches the threshold, \<open>CLOSED\<close> before.
\<close>

theorem breaker_state_machine:
  "(cb_state b = CLOSED \<longrightarrow>
      recordFailure b =
        (if failureCount b + 1 \<ge> failureThreshold b
         then b\<lparr>cb_state := OPEN, failureCount := failureCount b + 1, cooldownTimer := True\<rparr>
         else b\<lparr>failureCount := failureCount b + 1\<rparr>)
      \<and> (cb_state (recordFailure b) = OPEN \<longleftrightarrow> failureCount b + 1 \<ge> failureThreshold b)
      \<and> recordSuccess b = b\<lparr>failureCount := 0\<rparr>)
   \<and> (cb_state b = HALF_OPEN \<longrightarrow>
      recordSuccess b = b\<lparr>cb_state := CLOSED, failureCount := 0, cooldownTimer := False\<rparr>
      \<and> recordFailure b =
          b\<lparr>cb_state := OPEN, failureCount := failureCount b + 1, cooldownTimer := True\<rparr>)
   \<and> failureThreshold (newCircuitBreaker None None) = 5
   \<and> (cb_state b = CLOSED \<and> failureCount b = 0 \<longrightarrow>
      failureCount (failures n b) = int n
      \<and> failureCount (failures n b) < failureCount (failures (Suc n) b)
      \<and> (int n < failureThreshold b \<longrightarrow> cb_state (failures n b) = CLOSED)
      \<and> (1 \<le> n \<and> failureThreshold b \<le> int n \<longrightarrow> cb_state (failures n b) = OPEN))"
proof -
  have closed: "cb_state b = CLOSED \<Longrightarrow>
      recordFailure b =
        (if failureCount b + 1 \<ge> failureThreshold b
         then b\<lparr>cb_state := OPEN, failureCount := failureCount b + 1, cooldownTimer := True\<rparr>
         else b\<lparr>failureCount := failureCount b + 1\<rparr>)"
    by (simp add: recordFailure_def Let_def open_breaker_def startCooldown_def
        clearCooldownTimer_def)
  have closed_iff: "cb_state b = CLOSED \<Longrightarrow>
      (cb_state (recordFailure b) = OPEN \<longleftrightarrow> failureCount b + 1 \<ge> failureThreshold b)"
    by (simp add: closed)
  have closed_ok: "cb_state b = CLOSED \<Longrightarrow> recordSuccess b = b\<lparr>failureCount := 0\<rparr>"
    by (simp add: recordSuccess_def)
  have half_ok: "cb_state b = HALF_OPEN \<Longrightarrow>
      recordSuccess b = b\<lparr>cb_state := CLOSED, failureCount := 0, cooldownTimer := False\<rparr>"
    by (simp add: recordSuccess_def clearCooldownTimer_def)
  have half_fail: "cb_state b = HALF_OPEN \<Longrightarrow>
      recordFailure b =
        b\<lparr>cb_state := OPEN, failureCount := failureCount b + 1, cooldownTimer := True\<rparr>"
    by (simp add: recordFailure_def Let_def open_breaker_def startCooldown_def
        clearCooldownTimer_def)
  have dflt: "failureThreshold (newCircuitBreaker None None) = 5"
    by (simp add: newCircuitBreaker_def envOrDefault_def)
  have run: "cb_state b = CLOSED \<and> failureCount b = 0 \<Longrightarrow>
      failureCount (failures n b) = int n
      \<and> failureCount (failures n b) < failureCount (failures (Suc n) b)
      \<and> (int n < failureThreshold b \<longrightarrow> cb_state (failures n b) = CLOSED)
      \<and> (1 \<le> n \<and> failureThreshold b \<le> int n \<longrightarrow> cb_state (failures n b) = OPEN)"
    using failures_state [of b n] by (simp add: failures_count recordFailure_count)
  show ?thesis
    using closed closed_iff closed_ok half_ok half_fail dflt run by blast
qed

theorem breaker_state_machine_witness:
  "cb_state (failures 4 (newCircuitBreaker None None)) = CLOSED
   \<and> cb_state (failures 5 (newCircuitBreaker None None)) = OPEN
   \<and> failureCount (failures 5 (newCircuitBreaker None None)) = 5
   \<and> recordSuccess ((newCircuitBreaker None None)\<lparr>cb_state := HALF_OPEN, cooldownTimer := True\<rparr>)
       = newCircuitBreaker None None"
  using breaker_state_machine [of "newCircuitBreaker None None" 4]
    breaker_state_machine [of "newCircuitBreaker None None" 5]
    breaker_state_machine
      [of "(newCircuitBreaker None None)\<lparr>cb_state := HALF_OPEN, cooldownTimer := True\<rparr>" 0]
  by (simp add: newCircuitBreaker_def envOrDefault_def)

lemma breakerStep_from_open:
  "cb_state b = OPEN \<Longrightarrow> cb_state (breakerStep e b) = OPEN \<or> cb_state (breakerStep e b) = HALF_OPEN"
  by (cases e) (simp_all add: recordSuccess_def recordFailure_def cooldownExpired_def Let_def)

lemma breakerTrace_length: "length (breakerTrace es b) = Suc (length es)"
  by (induction es arbitrary: b) simp_all

lemma breakerTrace_Suc:
  "i < length es \<Longrightarrow> breakerTrace es b ! Suc i = breakerStep (es ! i) (breakerTrace es b ! i)"
proof (induction es arbitrary: b i)
  case Nil
  then show ?case by simp
next
  case (Cons e es)
  show ?case
  proof (cases i)
    case 0
    then show ?thesis by (cases es) simp_all
  next
    case (Suc k)
    with Cons.prems have "k < length es" by simp
    from Cons.IH [OF this] Suc show ?thesis by simp
  qed
qed

lemma breakerTrace_open_next:
  assumes "Suc i < length (breakerTrace es b)" and "cb_state (breakerTrace es b ! i) = OPEN"
  shows "cb_state (breakerTrace es b ! Suc i) = OPEN
         \<or> cb_state (breakerTrace es b ! Suc i) = HALF_OPEN"
proof -
  from assms(1) have "i < length es" by (simp add: breakerTrace_length)
  then show ?thesis
    using breakerStep_from_open [OF assms(2)] by (simp add: breakerTrace_Suc)
qed

lemma breakerTrace_stays_open:
  assumes len: "j < length (breakerTrace es b)"
    and start: "cb_state (breakerTrace es b ! i) = OPEN"
    and none: "\<forall>m. i < m \<and> m < j \<longrightarrow> cb_state (breakerTrace es b ! m) \<noteq> HALF_OPEN"
  shows "i \<le> k \<Longrightarrow> k < j \<Longrightarrow> cb_state (breakerTrace es b ! k) = OPEN"
proof (induction k)
  case 0
  then show ?case using start by simp
next
  case (Suc k)
  show ?case
  proof (cases "i = Suc k")
    case True
    then show ?thesis using start by simp
  next
    case False
    with Suc.prems have ik: "i \<le> k" and kj: "k < j" by simp_all
    from Suc.IH [OF ik kj] have "cb_state (breakerTrace es b ! k) = OPEN" .
    moreover from Suc.prems len have "Suc k < length (breakerTrace es b)" by simp
    ultimately have "cb_state (breakerTrace es b ! Suc k) = OPEN
        \<or> cb_state (breakerTrace es b ! Suc k) = HALF_OPEN"
      by (rule breakerTrace_open_next [rotated])
    moreover from none ik Suc.prems have "cb_state (breakerTrace es b ! Suc k) \<noteq> HALF_OPEN"
      by simp
    ultimately show ?thesis by simp
  qed
qed

lemma breakerTrace_via_half_open:
  assumes ij: "i < j" and len: "j < length (breakerTrace es b)"
    and op: "cb_state (breakerTrace es b ! i) = OPEN"
    and cl: "cb_state (breakerTrace es b ! j) = CLOSED"
  shows "\<exists>k. i < k \<and> k < j \<and> cb_state (breakerTrace es b ! k) = HALF_OPEN"
proof (rule ccontr)
  assume "\<not> ?thesis"
  then have none: "\<forall>m. i < m \<and> m < j \<longrightarrow> cb_state (breakerTrace es b ! m) \<noteq> HALF_OPEN"
    by blast
  obtain p where j: "j = Suc p" using ij by (cases j) simp_all
  with ij have "i \<le> p" and "p < j" by simp_all
  from breakerTrace_stays_open [OF len op none this]
  have "cb_state (breakerTrace es b ! p) = OPEN" .
  with breakerTrace_open_next [of p es b] len j cl show False by simp
qed

lemma calls_only_stay_open:
  "cb_state b = OPEN \<Longrightarrow> CooldownFires \<notin> set es \<Longrightarrow> b' \<in> set (breakerTrace es b)
     \<Longrightarrow> cb_state b' = OPEN"
proof (induction es arbitrary: b)
  case Nil
  then show ?case by simp
next
  case (Cons e es)
  from Cons.prems have "cb_state (breakerStep e b) = OPEN"
    by (cases e) (simp_all add: recordSuccess_def recordFailure_def Let_def)
  with Cons show ?case by auto
qed

text \<open>
  C10. While the breaker is \<open>OPEN\<close>, \<open>recordSuccess\<close> changes nothing and \<open>recordFailure\<close>
  only adds one to \<open>failureCount\<close>. So a run of \<open>recordSuccess\<close> and \<open>recordFailure\<close> calls
  that starts \<open>OPEN\<close> stays \<open>OPEN\<close>; and in any run of these calls and cooldown-timer
  firings no step leads from \<open>OPEN\<close> to \<open>CLOSED\<close>: between an \<open>OPEN\<close> breaker and a later
  \<open>CLOSED\<close> one there is a \<open>HALF_OPEN\<close> one.
\<close>

theorem open_never_closes_directly:
  "(cb_state b = OPEN \<longrightarrow>
      recordSuccess b = b \<and> recordFailure b = b\<lparr>failureCount := failureCount b + 1\<rparr>)
   \<and> (cb_state b = OPEN \<and> CooldownFires \<notin> set es \<longrightarrow>
        (\<forall>b' \<in> set (breakerTrace es b). cb_state b' = OPEN))
   \<and> (\<forall>i. Suc i < length (breakerTrace es b) \<and> cb_state (breakerTrace es b ! i) = OPEN
          \<longrightarrow> cb_state (breakerTrace es b ! Suc i) \<noteq> CLOSED)
   \<and> (\<forall>i j. i < j \<and> j < length (breakerTrace es b)
          \<and> cb_state (breakerTrace es b ! i) = OPEN
          \<and> cb_state (breakerTrace es b ! j) = CLOSED
          \<longrightarrow> (\<exists>k. i < k \<and> k < j \<and> cb_state (breakerTrace es b ! k) = HALF_OPEN))"
proof -
  have calls: "cb_state b = OPEN \<Longrightarrow>
      recordSuccess b = b \<and> recordFailure b = b\<lparr>failureCount := failureCount b + 1\<rparr>"
    by (simp add: recordSuccess_def recordFailure_def Let_def)
  have stay: "cb_state b = OPEN \<and> CooldownFires \<notin> set es \<Longrightarrow>
      \<forall>b' \<in> set (breakerTrace es b). cb_state b' = OPEN"
    using calls_only_stay_open by blast
  have step: "\<forall>i. Suc i < length (breakerTrace es b) \<and> cb_state (breakerTrace es b ! i) = OPEN
          \<longrightarrow> cb_state (breakerTrace es b ! Suc i) \<noteq> CLOSED"
    using breakerTrace_open_next [of _ es b] by fastforce
  have via: "\<forall>i j. i < j \<and> j < length (breakerTrace es b)
          \<and> cb_state (breakerTrace es b ! i) = OPEN
          \<and> cb_state (breakerTrace es b ! j) = CLOSED
          \<longrightarrow> (\<exists>k. i < k \<and> k < j \<and> cb_state (breakerTrace es b ! k) = HALF_OPEN)"
    using breakerTrace_via_half_open [of _ _ es b] by blast
  show ?thesis using calls stay step via by blast
qed

theorem open_never_closes_directly_witness:
  "map cb_state
     (breakerTrace [RecordSuccess, RecordFailure, CooldownFires, RecordSuccess]
        ((newCircuitBreaker None None)\<lparr>cb_state := OPEN, failureCount := 5, cooldownTimer := True\<rparr>))
     = [OPEN, OPEN, OPEN, HALF_OPEN, CLOSED]
   \<and> recordSuccess
       ((newCircuitBreaker None None)\<lparr>cb_state := OPEN, failureCount := 5, cooldownTimer := True\<rparr>)
     = (newCircuitBreaker None None)\<lparr>cb_state := OPEN, failureCount := 5, cooldownTimer := True\<rparr>
   \<and> (\<exists>k. 0 < k \<and> k < 4 \<and>
        cb_state (breakerTrace [RecordSuccess, RecordFailure, CooldownFires, RecordSuccess]
          ((newCircuitBreaker None None)\<lparr>cb_state := OPEN, failureCount := 5, cooldownTimer := True\<rparr>)
          ! k) = HALF_OPEN)
   \<and> cb_state (last (breakerTrace [RecordSuccess, RecordFailure, RecordSuccess]
          ((newCircuitBreaker None None)\<lparr>cb_state := OPEN, failureCount := 5, cooldownTimer := True\<rparr>)))
       = OPEN"
proof -
  let ?b = "(newCircuitBreaker None None)\<lparr>cb_state := OPEN, failureCount := 5, cooldownTimer := True\<rparr>"
  let ?es = "[RecordSuccess, RecordFailure, CooldownFires, RecordSuccess]"
  have tr: "map cb_state (breakerTrace ?es ?b) = [OPEN, OPEN, OPEN, HALF_OPEN, CLOSED]"
    by (simp add: newCircuitBreaker_def envOrDefault_def recordSuccess_def recordFailure_def
        cooldownExpired_def clearCooldownTimer_def Let_def)
  have o: "cb_state ?b = OPEN" by simp
  have len: "length (breakerTrace ?es ?b) = 5" by (simp add: breakerTrace_length)
  have n0: "cb_state (breakerTrace ?es ?b ! 0) = OPEN" by simp
  have "map cb_state (breakerTrace ?es ?b) ! 4 = CLOSED" by (simp only: tr) simp
  then have n4: "cb_state (breakerTrace ?es ?b ! 4) = CLOSED" by (simp add: len)
  from open_never_closes_directly [of ?b ?es] o have rs: "recordSuccess ?b = ?b" by blast
  from open_never_closes_directly [of ?b ?es] n0 n4 len
  have via: "\<exists>k. 0 < k \<and> k < 4 \<and> cb_state (breakerTrace ?es ?b ! k) = HALF_OPEN"
    by (metis zero_less_numeral less_add_one numeral_plus_one semiring_norm(5) lessI
        numeral_eq_Suc pred_numeral_simps(2) Suc_lessD)
  have nc: "CooldownFires \<notin> set [RecordSuccess, RecordFailure, RecordSuccess]" by simp
  from open_never_closes_directly [of ?b "[RecordSuccess, RecordFailure, RecordSuccess]"] o nc
  have allo: "\<forall>b' \<in> set (breakerTrace [RecordSuccess, RecordFailure, RecordSuccess] ?b). cb_state b' = OPEN"
    by blast
  have "breakerTrace [RecordSuccess, RecordFailure, RecordSuccess] ?b \<noteq> []"
    by simp
  then have "last (breakerTrace [RecordSuccess, RecordFailure, RecordSuccess] ?b)
      \<in> set (breakerTrace [RecordSuccess, RecordFailure, RecordSuccess] ?b)"
    by (rule last_in_set)
  with allo have lo: "cb_state (last (breakerTrace [RecordSuccess, RecordFailure, RecordSuccess] ?b)) = OPEN"
    by blast
  from tr rs via lo show ?thesis by (intro conjI) assumption+
qed

section \<open>Properties of the durable store\<close>

lemma cleanup_rows:
  "db s = Some rows \<Longrightarrow> \<not> dbFails env \<Longrightarrow>
   cleanupStaleRecoveries env maxAgeMs s =
     (Inr (int (length (filter (isStale (now env - maxAgeMs)) rows))),
      s\<lparr>db := Some (map (\<lambda>r. if isStale (now env - maxAgeMs) r then staleRow r else r) rows)\<rparr>)"
  by (simp add: cleanupStaleRecoveries_def Let_def)

lemma isStale_iff:
  "isStale c r \<longleftrightarrow>
     (status r = RECOVERING \<and> (\<exists>t. recovery_started_at r = Some t \<and> t < c))"
  by (auto simp: isStale_def split: option.splits)

text \<open>
  C6 (as amended). When the statement is not rejected, \<open>cleanupStaleRecoveries\<close> keeps
  the table's rows in place and rewrites exactly the rows with status \<open>RECOVERING\<close> and a
  \<open>recovery_started_at\<close> below \<open>now - maxAgeMs\<close>: their status becomes \<open>PENDING\<close>, their
  \<open>recovery_instance\<close> and \<open>recovery_started_at\<close> become \<open>NULL\<close>, and every other column
  (\<open>retry_count\<close> among them) keeps its value. Every other row is unchanged, the result
  is the number of rewritten rows, and nothing else of the store changes.
\<close>

theorem cleanupStaleRecoveries_effect:
  assumes ok: "\<not> dbFails env"
  shows "length (records (snd (cleanupStaleRecoveries env maxAgeMs s))) = length (records s)
    \<and> (\<forall>i < length (records s).
          records (snd (cleanupStaleRecoveries env maxAgeMs s)) ! i =
            (if status (records s ! i) = RECOVERING
                \<and> (\<exists>t. recovery_started_at (records s ! i) = Some t \<and> t < now env - maxAgeMs)
             then (records s ! i)\<lparr>status := PENDING, recovery_instance := None,
                                   recovery_started_at := None\<rparr>
             else records s ! i))
    \<and> fst (cleanupStaleRecoveries env maxAgeMs s) =
        Inr (int (card {i. i < length (records s) \<and> status (records s ! i) = RECOVERING
                \<and> (\<exists>t. recovery_started_at (records s ! i) = Some t \<and> t < now env - maxAgeMs)}))
    \<and> snd (cleanupStaleRecoveries env maxAgeMs s)
        = s\<lparr>db := db (snd (cleanupStaleRecoveries env maxAgeMs s))\<rparr>"
proof (cases "db s")
  case None
  then show ?thesis by (simp add: cleanupStaleRecoveries_def records_def)
next
  case (Some rows)
  have cnt: "length (filter (isStale (now env - maxAgeMs)) rows)
      = card {i. i < length rows \<and> status (rows ! i) = RECOVERING
                \<and> (\<exists>t. recovery_started_at (rows ! i) = Some t \<and> t < now env - maxAgeMs)}"
    by (simp add: length_filter_conv_card isStale_iff)
  show ?thesis
    using Some ok cnt by (auto simp: cleanup_rows records_def staleRow_def isStale_iff)
qed

lemma claim_rows:
  "db s = Some rows \<Longrightarrow> \<not> dbFails env \<Longrightarrow>
   getAndMarkPendingCars env limit inst s =
     (Inr (map (claimRow inst (now env)) (filter (claimHit (selected_cars limit rows)) rows)),
      s\<lparr>db := Some (map (\<lambda>r. if claimHit (selected_cars limit rows) r
                              then claimRow inst (now env) r else r) rows)\<rparr>)"
  by (simp add: getAndMarkPendingCars_def Let_def)

lemma claimRow_changes: "status r = PENDING \<Longrightarrow> claimRow inst t r \<noteq> r"
proof
  assume p: "status r = PENDING" and "claimRow inst t r = r"
  then have "status (claimRow inst t r) = status r" by simp
  with p show False by (simp add: claimRow_def)
qed

lemma id_col_claimRow [simp]: "id_col (claimRow inst t r) = id_col r"
  by (simp add: claimRow_def)


lemma selected_cars_oldest: "selected_cars limit rows = map id_col (oldestPending limit rows)"
  by (simp add: selected_cars_def oldestPending_def)

lemma oldestPending_subset:
  "r \<in> set (oldestPending limit rows) \<Longrightarrow> r \<in> set rows \<and> status r = PENDING"
  by (auto simp: oldestPending_def sqlLimit_def dest: in_set_takeD split: if_splits)

lemma claimHit_iff:
  assumes d: "distinct (map id_col rows)" and r: "r \<in> set rows"
  shows "claimHit (selected_cars limit rows) r \<longleftrightarrow> r \<in> set (oldestPending limit rows)"
proof
  assume "claimHit (selected_cars limit rows) r"
  then obtain q where q: "q \<in> set (oldestPending limit rows)" and e: "id_col q = id_col r"
    by (auto simp: claimHit_def selected_cars_oldest)
  from q have "q \<in> set rows" by (simp add: oldestPending_subset)
  with d r e have "q = r" by (meson distinct_map inj_onD)
  with q show "r \<in> set (oldestPending limit rows)" by simp
next
  assume "r \<in> set (oldestPending limit rows)"
  then show "claimHit (selected_cars limit rows) r"
    using oldestPending_subset [of r limit rows] by (auto simp: claimHit_def selected_cars_oldest)
qed

lemma claimHit_count:
  assumes d: "distinct (map id_col rows)"
  shows "length (filter (claimHit (selected_cars limit rows)) rows)
         = (if limit < 0 then length (filter (\<lambda>r. status r = PENDING) rows)
            else min (nat limit) (length (filter (\<lambda>r. status r = PENDING) rows)))"
proof -
  from d have dr: "distinct rows" by (simp add: distinct_map)
  have "filter (claimHit (selected_cars limit rows)) rows
        = filter (\<lambda>r. r \<in> set (oldestPending limit rows)) rows"
    by (rule filter_cong) (simp_all add: claimHit_iff [OF d])
  moreover have "set (filter (\<lambda>r. r \<in> set (oldestPending limit rows)) rows)
        = set (oldestPending limit rows)"
    using oldestPending_subset by auto
  moreover have "distinct (oldestPending limit rows)"
    using dr by (simp add: oldestPending_def sqlLimit_def)
  moreover have "distinct (filter (\<lambda>r. r \<in> set (oldestPending limit rows)) rows)"
    using dr by simp
  ultimately have "length (filter (claimHit (selected_cars limit rows)) rows)
        = length (oldestPending limit rows)"
    by (metis distinct_card)
  then show ?thesis by (simp add: oldestPending_def sqlLimit_def min.commute)
qed

lemma oldestPending_first:
  assumes r: "r \<in> set (oldestPending limit rows)"
    and q: "q \<in> set rows" "status q = PENDING" "q \<notin> set (oldestPending limit rows)"
  shows "created_at r \<le> created_at q"
proof (cases "limit < 0")
  case True
  with q show ?thesis by (simp add: oldestPending_def sqlLimit_def)
next
  case False
  let ?xs = "sort_key created_at (filter (\<lambda>r. status r = PENDING) rows)"
  let ?n = "nat limit"
  have "sorted (map created_at (take ?n ?xs @ drop ?n ?xs))" by simp
  then have le: "\<forall>x \<in> set (take ?n ?xs). \<forall>y \<in> set (drop ?n ?xs). created_at x \<le> created_at y"
    unfolding map_append sorted_append by simp
  from q have "q \<in> set ?xs" by simp
  then have "q \<in> set (take ?n ?xs) \<union> set (drop ?n ?xs)"
    by (metis append_take_drop_id set_append)
  with q(3) False have "q \<in> set (drop ?n ?xs)" by (simp add: oldestPending_def sqlLimit_def)
  with le r False show ?thesis by (simp add: oldestPending_def sqlLimit_def)
qed

lemma claimed_ids_selected:
  "r \<in> set (filter (claimHit sel) rows) \<Longrightarrow> id_col r \<in> set sel"
  by (simp add: claimHit_def)

lemma second_claim_disjoint:
  assumes a: "r1 \<in> set (filter (claimHit sel) rows)"
    and b: "r2 \<in> set (filter (claimHit sel2)
                 (map (\<lambda>r. if claimHit sel r then claimRow inst t r else r) rows))"
  shows "id_col r1 \<noteq> id_col r2"
proof -
  from b obtain r where r: "r \<in> set rows"
    and r2: "r2 = (if claimHit sel r then claimRow inst t r else r)" and p: "status r2 = PENDING"
    by (auto simp: claimHit_def)
  from r2 p have nh: "\<not> claimHit sel r" and e: "r2 = r"
    by (auto simp: claimRow_def split: if_splits)
  with p have "id_col r2 \<notin> set sel" by (simp add: claimHit_def)
  moreover from a have "id_col r1 \<in> set sel" by (simp add: claimHit_def)
  ultimately show ?thesis by auto
qed

lemma claimed_set:
  "set (map (claimRow inst t) (filter (claimHit sel) rows))
     = {map (\<lambda>r. if claimHit sel r then claimRow inst t r else r) rows ! i | i.
          i < length rows \<and>
          map (\<lambda>r. if claimHit sel r then claimRow inst t r else r) rows ! i \<noteq> rows ! i}"
  (is "?L = ?R")
proof
  show "?L \<subseteq> ?R"
  proof
    fix x assume "x \<in> ?L"
    then obtain r where r: "r \<in> set rows" "claimHit sel r" and x: "x = claimRow inst t r"
      by auto
    from r(1) obtain i where i: "i < length rows" "rows ! i = r" by (auto simp: in_set_conv_nth)
    from r(2) have "claimRow inst t r \<noteq> r" by (simp add: claimHit_def claimRow_changes)
    with i r x have "x = map (\<lambda>r. if claimHit sel r then claimRow inst t r else r) rows ! i
        \<and> i < length rows
        \<and> map (\<lambda>r. if claimHit sel r then claimRow inst t r else r) rows ! i \<noteq> rows ! i"
      by simp
    then show "x \<in> ?R" by blast
  qed
next
  show "?R \<subseteq> ?L"
  proof
    fix x assume "x \<in> ?R"
    then obtain i where i: "i < length rows"
      and x: "x = (if claimHit sel (rows ! i) then claimRow inst t (rows ! i) else rows ! i)"
      and ne: "(if claimHit sel (rows ! i) then claimRow inst t (rows ! i) else rows ! i) \<noteq> rows ! i"
      by auto
    from ne have "claimHit sel (rows ! i)" by (auto split: if_splits)
    with i x show "x \<in> ?L" by auto
  qed
qed

lemma later_claim_disjoint:
  assumes old: "\<forall>r \<in> set rows2. id_col r \<in> I \<longrightarrow> status r \<noteq> PENDING"
  shows "I \<inter> id_col ` set (map (claimRow inst t) (filter (claimHit sel) rows2)) = {}"
proof (rule ccontr)
  assume "I \<inter> id_col ` set (map (claimRow inst t) (filter (claimHit sel) rows2)) \<noteq> {}"
  then obtain r where r: "r \<in> set rows2" "claimHit sel r" "id_col r \<in> I"
    by auto
  from r(2) have "status r = PENDING" by (simp add: claimHit_def)
  with old r(1) r(3) show False by blast
qed

text \<open>
  C2 (as amended). On an initialised store whose ids are unique (the table's primary
  key), a call of \<open>getAndMarkPendingCars\<close> whose statement is rejected leaves the store as
  it was. Otherwise every row is either untouched or was pending and now has status
  \<open>RECOVERING\<close>, the caller's instance id and the current time, all three together; the
  rows returned are exactly the rows so updated, as updated; for a limit that is not
  negative there are \<open>min limit (number of pending rows)\<close> of them, so at most \<open>limit\<close>,
  and for a negative limit every pending row is claimed; every claimed row is at least
  as old (\<open>created_at\<close>) as every pending row left unclaimed. A second call on the
  resulting store, with any limit, instance and time, returns rows whose ids are
  disjoint from those of the first; so does a later call on any store in which no row
  with an id claimed by the first call is pending.
\<close>

theorem getAndMarkPendingCars_claim:
  assumes init: "db s = Some rows" and pk: "distinct (map id_col rows)"
  shows "(dbFails env \<longrightarrow> getAndMarkPendingCars env limit inst s = (Inl sqliteError, s))
    \<and> (\<not> dbFails env \<and> \<not> dbFails env2 \<longrightarrow>
        (\<exists>claimed rows' claimed2 rows''.
           getAndMarkPendingCars env limit inst s = (Inr claimed, s\<lparr>db := Some rows'\<rparr>)
         \<and> length rows' = length rows
         \<and> (\<forall>i < length rows.
               rows' ! i = rows ! i
               \<or> (status (rows ! i) = PENDING
                  \<and> rows' ! i = (rows ! i)\<lparr>status := RECOVERING, recovery_instance := Some inst,
                                            recovery_started_at := Some (now env)\<rparr>))
         \<and> set claimed = {rows' ! i | i. i < length rows \<and> rows' ! i \<noteq> rows ! i}
         \<and> length claimed =
             (if limit < 0 then length (filter (\<lambda>r. status r = PENDING) rows)
              else min (nat limit) (length (filter (\<lambda>r. status r = PENDING) rows)))
         \<and> (0 \<le> limit \<longrightarrow> int (length claimed) \<le> limit)
         \<and> (\<forall>i j. i < length rows \<and> j < length rows \<and> rows' ! i \<noteq> rows ! i
                \<and> status (rows ! j) = PENDING \<and> rows' ! j = rows ! j
                \<longrightarrow> created_at (rows ! i) \<le> created_at (rows ! j))
         \<and> getAndMarkPendingCars env2 limit2 inst2 (s\<lparr>db := Some rows'\<rparr>)
             = (Inr claimed2, s\<lparr>db := Some rows''\<rparr>)
         \<and> id_col ` set claimed \<inter> id_col ` set claimed2 = {}
         \<and> (db s2 = Some rows2
              \<and> (\<forall>r \<in> set rows2. id_col r \<in> id_col ` set claimed \<longrightarrow> status r \<noteq> PENDING)
            \<longrightarrow> (\<exists>claimed3 rows3.
                   getAndMarkPendingCars env2 limit2 inst2 s2 = (Inr claimed3, s2\<lparr>db := Some rows3\<rparr>)
                 \<and> id_col ` set claimed \<inter> id_col ` set claimed3 = {}))))"
proof (intro conjI impI)
  assume "dbFails env"
  with init show "getAndMarkPendingCars env limit inst s = (Inl sqliteError, s)"
    by (simp add: getAndMarkPendingCars_def)
next
  assume ok: "\<not> dbFails env \<and> \<not> dbFails env2"
  let ?sel = "selected_cars limit rows"
  let ?upd = "\<lambda>r. if claimHit ?sel r then claimRow inst (now env) r else r"
  let ?rows' = "map ?upd rows"
  let ?claimed = "map (claimRow inst (now env)) (filter (claimHit ?sel) rows)"
  let ?sel2 = "selected_cars limit2 ?rows'"
  let ?claimed2 = "map (claimRow inst2 (now env2)) (filter (claimHit ?sel2) ?rows')"
  let ?rows'' = "map (\<lambda>r. if claimHit ?sel2 r then claimRow inst2 (now env2) r else r) ?rows'"
  have c1: "getAndMarkPendingCars env limit inst s = (Inr ?claimed, s\<lparr>db := Some ?rows'\<rparr>)"
    using init ok by (simp add: claim_rows)
  have c2: "length ?rows' = length rows" by simp
  have c3: "\<forall>i < length rows.
               ?rows' ! i = rows ! i
               \<or> (status (rows ! i) = PENDING
                  \<and> ?rows' ! i = (rows ! i)\<lparr>status := RECOVERING, recovery_instance := Some inst,
                                            recovery_started_at := Some (now env)\<rparr>)"
    by (simp add: claimHit_def claimRow_def)
  have c4: "set ?claimed = {?rows' ! i | i. i < length rows \<and> ?rows' ! i \<noteq> rows ! i}"
    by (rule claimed_set)
  have c5: "length ?claimed =
             (if limit < 0 then length (filter (\<lambda>r. status r = PENDING) rows)
              else min (nat limit) (length (filter (\<lambda>r. status r = PENDING) rows)))"
    using claimHit_count [OF pk, of limit] by simp
  have c5': "0 \<le> limit \<longrightarrow> int (length ?claimed) \<le> limit"
    unfolding c5 by auto
  have c6: "\<forall>i j. i < length rows \<and> j < length rows \<and> ?rows' ! i \<noteq> rows ! i
                \<and> status (rows ! j) = PENDING \<and> ?rows' ! j = rows ! j
                \<longrightarrow> created_at (rows ! i) \<le> created_at (rows ! j)"
  proof (intro allI impI)
    fix i j
    assume h: "i < length rows \<and> j < length rows \<and> ?rows' ! i \<noteq> rows ! i
                \<and> status (rows ! j) = PENDING \<and> ?rows' ! j = rows ! j"
    then have hi: "claimHit ?sel (rows ! i)" by (auto split: if_splits)
    from h have nj: "\<not> claimHit ?sel (rows ! j)"
      by (auto simp: claimRow_changes split: if_splits)
    from h have mi: "rows ! i \<in> set rows" and mj: "rows ! j \<in> set rows" by simp_all
    from hi have "rows ! i \<in> set (oldestPending limit rows)"
      by (simp add: claimHit_iff [OF pk mi])
    moreover from nj have "rows ! j \<notin> set (oldestPending limit rows)"
      by (simp add: claimHit_iff [OF pk mj])
    ultimately show "created_at (rows ! i) \<le> created_at (rows ! j)"
      using oldestPending_first mj h by blast
  qed
  have c7: "getAndMarkPendingCars env2 limit2 inst2 (s\<lparr>db := Some ?rows'\<rparr>)
             = (Inr ?claimed2, s\<lparr>db := Some ?rows''\<rparr>)"
    using ok by (simp add: claim_rows)
  have c8: "id_col ` set ?claimed \<inter> id_col ` set ?claimed2 = {}"
  proof (rule ccontr)
    assume "id_col ` set ?claimed \<inter> id_col ` set ?claimed2 \<noteq> {}"
    then obtain r1 r2 where r1: "r1 \<in> set (filter (claimHit ?sel) rows)"
      and r2: "r2 \<in> set (filter (claimHit ?sel2) ?rows')"
      and e: "id_col r1 = id_col r2"
      by (auto simp del: set_filter)
    from second_claim_disjoint [OF r1 r2] e show False by simp
  qed
  have c9: "db s2 = Some rows2
              \<and> (\<forall>r \<in> set rows2. id_col r \<in> id_col ` set ?claimed \<longrightarrow> status r \<noteq> PENDING)
            \<longrightarrow> (\<exists>claimed3 rows3.
                   getAndMarkPendingCars env2 limit2 inst2 s2 = (Inr claimed3, s2\<lparr>db := Some rows3\<rparr>)
                 \<and> id_col ` set ?claimed \<inter> id_col ` set claimed3 = {})"
  proof
    assume h: "db s2 = Some rows2
              \<and> (\<forall>r \<in> set rows2. id_col r \<in> id_col ` set ?claimed \<longrightarrow> status r \<noteq> PENDING)"
    let ?sel3 = "selected_cars limit2 rows2"
    let ?claimed3 = "map (claimRow inst2 (now env2)) (filter (claimHit ?sel3) rows2)"
    let ?rows3 = "map (\<lambda>r. if claimHit ?sel3 r then claimRow inst2 (now env2) r else r) rows2"
    from h ok have g: "getAndMarkPendingCars env2 limit2 inst2 s2 = (Inr ?claimed3, s2\<lparr>db := Some ?rows3\<rparr>)"
      by (simp add: claim_rows)
    from h have "\<forall>r \<in> set rows2. id_col r \<in> id_col ` set ?claimed \<longrightarrow> status r \<noteq> PENDING"
      by (rule conjunct2)
    then have "id_col ` set ?claimed \<inter> id_col ` set ?claimed3 = {}"
      by (rule later_claim_disjoint)
    with g show "\<exists>claimed3 rows3.
                   getAndMarkPendingCars env2 limit2 inst2 s2 = (Inr claimed3, s2\<lparr>db := Some rows3\<rparr>)
                 \<and> id_col ` set ?claimed \<inter> id_col ` set claimed3 = {}"
      by blast
  qed
  show "\<exists>claimed rows' claimed2 rows''.
           getAndMarkPendingCars env limit inst s = (Inr claimed, s\<lparr>db := Some rows'\<rparr>)
         \<and> length rows' = length rows
         \<and> (\<forall>i < length rows.
               rows' ! i = rows ! i
               \<or> (status (rows ! i) = PENDING
                  \<and> rows' ! i = (rows ! i)\<lparr>status := RECOVERING, recovery_instance := Some inst,
                                            recovery_started_at := Some (now env)\<rparr>))
         \<and> set claimed = {rows' ! i | i. i < length rows \<and> rows' ! i \<noteq> rows ! i}
         \<and> length claimed =
             (if limit < 0 then length (filter (\<lambda>r. status r = PENDING) rows)
              else min (nat limit) (length (filter (\<lambda>r. status r = PENDING) rows)))
         \<and> (0 \<le> limit \<longrightarrow> int (length claimed) \<le> limit)
         \<and> (\<forall>i j. i < length rows \<and> j < length rows \<and> rows' ! i \<noteq> rows ! i
                \<and> status (rows ! j) = PENDING \<and> rows' ! j = rows ! j
                \<longrightarrow> created_at (rows ! i) \<le> created_at (rows ! j))
         \<and> getAndMarkPendingCars env2 limit2 inst2 (s\<lparr>db := Some rows'\<rparr>)
             = (Inr claimed2, s\<lparr>db := Some rows''\<rparr>)
         \<and> id_col ` set claimed \<inter> id_col ` set claimed2 = {}
         \<and> (db s2 = Some rows2
              \<and> (\<forall>r \<in> set rows2. id_col r \<in> id_col ` set claimed \<longrightarrow> status r \<noteq> PENDING)
            \<longrightarrow> (\<exists>claimed3 rows3.
                   getAndMarkPendingCars env2 limit2 inst2 s2 = (Inr claimed3, s2\<lparr>db := Some rows3\<rparr>)
                 \<and> id_col ` set claimed \<inter> id_col ` set claimed3 = {}))"
    apply (rule exI [of _ ?claimed])
    apply (rule exI [of _ ?rows'])
    apply (rule exI [of _ ?claimed2])
    apply (rule exI [of _ ?rows''])
    using c1 c2 c3 c4 c5 c5' c6 c7 c8 c9 by (intro conjI) assumption+
qed

theorem cleanupStaleRecoveries_effect_witness:
  "\<not> dbFails (sampleEnv 1000)
   \<and> cleanupStaleRecoveries (sampleEnv 1000) 500
       (sampleStore
          [(sampleRow ''a'' 1 RECOVERING)\<lparr>retry_count := 2, recovery_instance := Some ''i1'',
                                           recovery_started_at := Some 100\<rparr>,
           (sampleRow ''b'' 2 RECOVERING)\<lparr>recovery_instance := Some ''i1'',
                                           recovery_started_at := Some 900\<rparr>,
           sampleRow ''c'' 3 PENDING])
     = (Inr 1,
        sampleStore
          [(sampleRow ''a'' 1 PENDING)\<lparr>retry_count := 2\<rparr>,
           (sampleRow ''b'' 2 RECOVERING)\<lparr>recovery_instance := Some ''i1'',
                                           recovery_started_at := Some 900\<rparr>,
           sampleRow ''c'' 3 PENDING])
   \<and> length (records (snd (cleanupStaleRecoveries (sampleEnv 1000) 500
       (sampleStore
          [(sampleRow ''a'' 1 RECOVERING)\<lparr>retry_count := 2, recovery_instance := Some ''i1'',
                                           recovery_started_at := Some 100\<rparr>,
           (sampleRow ''b'' 2 RECOVERING)\<lparr>recovery_instance := Some ''i1'',
                                           recovery_started_at := Some 900\<rparr>,
           sampleRow ''c'' 3 PENDING])))) = 3"
proof -
  let ?s = "sampleStore
          [(sampleRow ''a'' 1 RECOVERING)\<lparr>retry_count := 2, recovery_instance := Some ''i1'',
                                           recovery_started_at := Some 100\<rparr>,
           (sampleRow ''b'' 2 RECOVERING)\<lparr>recovery_instance := Some ''i1'',
                                           recovery_started_at := Some 900\<rparr>,
           sampleRow ''c'' 3 PENDING]"
  have h: "\<not> dbFails (sampleEnv 1000)" by (simp add: sampleEnv_def)
  have l: "length (records ?s) = 3" by (simp add: records_def sampleStore_def)
  from cleanupStaleRecoveries_effect [OF h, of 500 ?s]
  have "length (records (snd (cleanupStaleRecoveries (sampleEnv 1000) 500 ?s))) = length (records ?s)"
    by (rule conjunct1)
  with l have "length (records (snd (cleanupStaleRecoveries (sampleEnv 1000) 500 ?s))) = 3"
    by simp
  moreover have "cleanupStaleRecoveries (sampleEnv 1000) 500 ?s
     = (Inr 1,
        sampleStore
          [(sampleRow ''a'' 1 PENDING)\<lparr>retry_count := 2\<rparr>,
           (sampleRow ''b'' 2 RECOVERING)\<lparr>recovery_instance := Some ''i1'',
                                           recovery_started_at := Some 900\<rparr>,
           sampleRow ''c'' 3 PENDING])"
    by (simp add: cleanupStaleRecoveries_def sampleStore_def sampleEnv_def sampleRow_def
        isStale_def staleRow_def Let_def)
  ultimately show ?thesis using h by (intro conjI) assumption+
qed

theorem getAndMarkPendingCars_claim_witness:
  "db (sampleStore [sampleRow ''a'' 30 PENDING, sampleRow ''b'' 10 PENDING,
                    sampleRow ''c'' 20 PENDING, sampleRow ''d'' 5 SENT])
     = Some [sampleRow ''a'' 30 PENDING, sampleRow ''b'' 10 PENDING,
             sampleRow ''c'' 20 PENDING, sampleRow ''d'' 5 SENT]
   \<and> distinct (map id_col [sampleRow ''a'' 30 PENDING, sampleRow ''b'' 10 PENDING,
                            sampleRow ''c'' 20 PENDING, sampleRow ''d'' 5 SENT])
   \<and> \<not> dbFails (sampleEnv 1000)
   \<and> getAndMarkPendingCars (sampleEnv 1000) 2 ''i1''
       (sampleStore [sampleRow ''a'' 30 PENDING, sampleRow ''b'' 10 PENDING,
                     sampleRow ''c'' 20 PENDING, sampleRow ''d'' 5 SENT])
     = (Inr [(sampleRow ''b'' 10 RECOVERING)\<lparr>recovery_instance := Some ''i1'',
                                               recovery_started_at := Some 1000\<rparr>,
             (sampleRow ''c'' 20 RECOVERING)\<lparr>recovery_instance := Some ''i1'',
                                               recovery_started_at := Some 1000\<rparr>],
        sampleStore
          [sampleRow ''a'' 30 PENDING,
           (sampleRow ''b'' 10 RECOVERING)\<lparr>recovery_instance := Some ''i1'',
                                             recovery_started_at := Some 1000\<rparr>,
           (sampleRow ''c'' 20 RECOVERING)\<lparr>recovery_instance := Some ''i1'',
                                             recovery_started_at := Some 1000\<rparr>,
           sampleRow ''d'' 5 SENT])
   \<and> (\<exists>claimed s'. getAndMarkPendingCars (sampleEnv 1000) 2 ''i1''
          (sampleStore [sampleRow ''a'' 30 PENDING, sampleRow ''b'' 10 PENDING,
                        sampleRow ''c'' 20 PENDING, sampleRow ''d'' 5 SENT]) = (Inr claimed, s')
        \<and> length claimed = 2 \<and> int (length claimed) \<le> 2)
   \<and> (\<exists>claimed3 s3. getAndMarkPendingCars (sampleEnv 1000) 2 ''i2''
          (sampleStore [sampleRow ''a'' 30 PENDING, sampleRow ''b'' 10 SENT,
                        sampleRow ''c'' 20 RECOVERING, sampleRow ''d'' 5 SENT]) = (Inr claimed3, s3)
        \<and> ''b'' \<notin> id_col ` set claimed3)
   \<and> dbFails ((sampleEnv 1000)\<lparr>dbFails := True\<rparr>)
   \<and> getAndMarkPendingCars ((sampleEnv 1000)\<lparr>dbFails := True\<rparr>) 2 ''i1''
       (sampleStore [sampleRow ''a'' 30 PENDING, sampleRow ''b'' 10 PENDING,
                     sampleRow ''c'' 20 PENDING, sampleRow ''d'' 5 SENT])
     = (Inl sqliteError,
        sampleStore [sampleRow ''a'' 30 PENDING, sampleRow ''b'' 10 PENDING,
                     sampleRow ''c'' 20 PENDING, sampleRow ''d'' 5 SENT])"
proof -
  let ?rows = "[sampleRow ''a'' 30 PENDING, sampleRow ''b'' 10 PENDING,
                sampleRow ''c'' 20 PENDING, sampleRow ''d'' 5 SENT]"
  let ?rows2 = "[sampleRow ''a'' 30 PENDING, sampleRow ''b'' 10 SENT,
                 sampleRow ''c'' 20 RECOVERING, sampleRow ''d'' 5 SENT]"
  let ?cl = "[(sampleRow ''b'' 10 RECOVERING)\<lparr>recovery_instance := Some ''i1'',
                                               recovery_started_at := Some 1000\<rparr>,
             (sampleRow ''c'' 20 RECOVERING)\<lparr>recovery_instance := Some ''i1'',
                                               recovery_started_at := Some 1000\<rparr>]"
  have h1: "db (sampleStore ?rows) = Some ?rows" by (simp add: sampleStore_def)
  have h2: "distinct (map id_col ?rows)" by (simp add: sampleRow_def)
  have h3: "\<not> dbFails (sampleEnv 1000)" by (simp add: sampleEnv_def)
  have n: "(if (2::int) < 0 then length (filter (\<lambda>r. status r = PENDING) ?rows)
            else min (nat 2) (length (filter (\<lambda>r. status r = PENDING) ?rows))) = 2"
    by (simp add: sampleRow_def)
  have ev: "getAndMarkPendingCars (sampleEnv 1000) 2 ''i1'' (sampleStore ?rows)
     = (Inr ?cl,
        sampleStore
          [sampleRow ''a'' 30 PENDING,
           (sampleRow ''b'' 10 RECOVERING)\<lparr>recovery_instance := Some ''i1'',
                                             recovery_started_at := Some 1000\<rparr>,
           (sampleRow ''c'' 20 RECOVERING)\<lparr>recovery_instance := Some ''i1'',
                                             recovery_started_at := Some 1000\<rparr>,
           sampleRow ''d'' 5 SENT])"
    by (simp add: getAndMarkPendingCars_def sampleStore_def sampleEnv_def sampleRow_def
        selected_cars_def sqlLimit_def claimHit_def claimRow_def Let_def)
  have h5: "db (sampleStore ?rows2) = Some ?rows2" by (simp add: sampleStore_def)
  have h6: "\<forall>r \<in> set ?rows2. id_col r \<in> id_col ` set ?cl \<longrightarrow> status r \<noteq> PENDING"
    by (simp add: sampleRow_def)
  have bin: "''b'' \<in> id_col ` set ?cl" by (simp add: sampleRow_def)
  note t = getAndMarkPendingCars_claim [OF h1 h2,
      of "sampleEnv 1000" 2 "''i1''" "sampleEnv 1000" 2 "''i2''" "sampleStore ?rows2" ?rows2,
      THEN conjunct2, rule_format, OF conjI [OF h3 h3]]
  from t obtain claimed rows' where
    g: "getAndMarkPendingCars (sampleEnv 1000) 2 ''i1'' (sampleStore ?rows)
       = (Inr claimed, (sampleStore ?rows)\<lparr>db := Some rows'\<rparr>)"
    and len: "length claimed =
       (if (2::int) < 0 then length (filter (\<lambda>r. status r = PENDING) ?rows)
        else min (nat 2) (length (filter (\<lambda>r. status r = PENDING) ?rows)))"
    and le: "(0::int) \<le> 2 \<longrightarrow> int (length claimed) \<le> 2"
    and later: "db (sampleStore ?rows2) = Some ?rows2
              \<and> (\<forall>r \<in> set ?rows2. id_col r \<in> id_col ` set claimed \<longrightarrow> status r \<noteq> PENDING)
            \<longrightarrow> (\<exists>claimed3 rows3.
                   getAndMarkPendingCars (sampleEnv 1000) 2 ''i2'' (sampleStore ?rows2)
                     = (Inr claimed3, (sampleStore ?rows2)\<lparr>db := Some rows3\<rparr>)
                 \<and> id_col ` set claimed \<inter> id_col ` set claimed3 = {})"
    by (elim exE conjE)
  from len n have l2: "length claimed = 2" by (simp only:)
  from le have l3: "int (length claimed) \<le> 2" by simp
  from g l2 l3 have ex: "\<exists>claimed s'. getAndMarkPendingCars (sampleEnv 1000) 2 ''i1'' (sampleStore ?rows)
          = (Inr claimed, s') \<and> length claimed = 2 \<and> int (length claimed) \<le> 2"
    by (intro exI conjI)
  from g ev have cl: "claimed = ?cl" by (simp only: prod.inject sum.inject)
  from later h5 h6 obtain claimed3 rows3 where
    g3: "getAndMarkPendingCars (sampleEnv 1000) 2 ''i2'' (sampleStore ?rows2)
           = (Inr claimed3, (sampleStore ?rows2)\<lparr>db := Some rows3\<rparr>)"
    and dj: "id_col ` set ?cl \<inter> id_col ` set claimed3 = {}"
    unfolding cl by blast
  from dj bin have "''b'' \<notin> id_col ` set claimed3" by blast
  with g3 have ex3: "\<exists>claimed3 s3. getAndMarkPendingCars (sampleEnv 1000) 2 ''i2'' (sampleStore ?rows2)
          = (Inr claimed3, s3) \<and> ''b'' \<notin> id_col ` set claimed3"
    by (intro exI conjI)
  have h4: "dbFails ((sampleEnv 1000)\<lparr>dbFails := True\<rparr>)" by simp
  note rej = getAndMarkPendingCars_claim [OF h1 h2,
      of "(sampleEnv 1000)\<lparr>dbFails := True\<rparr>" 2 "''i1''" "sampleEnv 1000" 2 "''i2''"
         "sampleStore ?rows2" ?rows2,
      THEN conjunct1, rule_format, OF h4]
  from h1 h2 h3 ev ex ex3 h4 rej show ?thesis by (intro conjI) assumption+
qed

theorem getAndMarkPendingCars_claim_counterexample:
  "newChunkSize (Some (- 1)) = - 1
   \<and> fst (getAndMarkPendingCars (sampleEnv 1000) (- 1) ''i1''
        (sampleStore [sampleRow ''a'' 30 PENDING, sampleRow ''b'' 10 PENDING, sampleRow ''c'' 20 PENDING]))
     = Inr [(sampleRow ''a'' 30 RECOVERING)\<lparr>recovery_instance := Some ''i1'',
                                               recovery_started_at := Some 1000\<rparr>,
            (sampleRow ''b'' 10 RECOVERING)\<lparr>recovery_instance := Some ''i1'',
                                               recovery_started_at := Some 1000\<rparr>,
            (sampleRow ''c'' 20 RECOVERING)\<lparr>recovery_instance := Some ''i1'',
                                               recovery_started_at := Some 1000\<rparr>]
   \<and> fst (getAndMarkPendingCars (sampleEnv 1000) 1 ''i1''
        (sampleStore [sampleRow ''a'' 10 PENDING, sampleRow ''b'' 20 PENDING]))
     = Inr [(sampleRow ''a'' 10 RECOVERING)\<lparr>recovery_instance := Some ''i1'',
                                               recovery_started_at := Some 1000\<rparr>]
   \<and> fst (getAndMarkPendingCars (sampleEnv 2000) 1 ''i2''
        (snd (markCarsAsPending None [''a'']
          (snd (getAndMarkPendingCars (sampleEnv 1000) 1 ''i1''
             (sampleStore [sampleRow ''a'' 10 PENDING, sampleRow ''b'' 20 PENDING]))))))
     = Inr [(sampleRow ''a'' 10 RECOVERING)\<lparr>retry_count := 1, recovery_instance := Some ''i2'',
                                               recovery_started_at := Some 2000\<rparr>]"
  by (simp add: newChunkSize_def envOrDefault_def getAndMarkPendingCars_def markCarsAsPending_def
      loopResult_def executed_def updateWhereId_def pendingRow_def sampleStore_def sampleEnv_def
      sampleRow_def selected_cars_def sqlLimit_def claimHit_def claimRow_def Let_def)

section \<open>Properties of the write handler and the availability check\<close>

lemma writeToSqlite_frame:
  "snd (writeToSqlite envs car a) = a\<lparr>sqliteManager := sqliteManager (snd (writeToSqlite envs car a))\<rparr>"
  by (simp add: writeToSqlite_def split: prod.splits)

lemma writeToSqlite_store:
  "(fst (writeToSqlite envs car a), sqliteManager (snd (writeToSqlite envs car a)))
     = writeToSqliteFrom envs car 0 maxRetries (sqliteManager a)"
  by (simp add: writeToSqlite_def split: prod.splits)

lemma writeToSqlite_remoteCalls [simp]:
  "remoteCalls (snd (writeToSqlite envs car a)) = remoteCalls a"
  by (simp add: writeToSqlite_def split: prod.splits)

lemma writeToSqlite_stateManager [simp]:
  "stateManager (snd (writeToSqlite envs car a)) = stateManager a"
  by (simp add: writeToSqlite_def split: prod.splits)

lemma writeToSqlite_circuitBreaker [simp]:
  "circuitBreaker (snd (writeToSqlite envs car a)) = circuitBreaker a"
  by (simp add: writeToSqlite_def split: prod.splits)

lemma writeToSqlite_metrics [simp]:
  "metrics (snd (writeToSqlite envs car a)) = metrics a"
  by (simp add: writeToSqlite_def split: prod.splits)

lemma writeToRedis_remoteCalls:
  "wh_queue a \<Longrightarrow> \<not> isOpen (circuitBreaker a) \<Longrightarrow>
     remoteCalls (snd (writeToRedis enq envs t car a)) = remoteCalls a @ [AddCar car]"
  by (simp add: writeToRedis_def Let_def split: sum.splits)

lemma writeToRedis_open:
  "wh_queue a \<Longrightarrow> isOpen (circuitBreaker a) \<Longrightarrow>
     writeToRedis enq envs t car a = writeToSqlite envs car (a\<lparr>stateManager := SQLITE_MODE\<rparr>)"
  by (simp add: writeToRedis_def)

text \<open>
  C5. \<open>writeCar\<close> routes in this order: with the breaker \<open>HALF_OPEN\<close> it runs
  \<open>writeToRedis\<close>, whatever the state; otherwise in \<open>REDIS_MODE\<close> it runs \<open>writeToRedis\<close>;
  otherwise it runs \<open>writeToSqlite\<close> only and sends nothing to the remote. With the queue
  set, the half-open probe and the closed \<open>REDIS_MODE\<close> write send the car to the queue;
  and \<open>writeToRedis\<close> on an open breaker sets the state to \<open>SQLITE_MODE\<close>, sends nothing
  and hands the record to \<open>writeToSqlite\<close>.
\<close>

theorem writeCar_routing:
  "(cb_state (circuitBreaker a) = HALF_OPEN \<longrightarrow>
      writeCar enq envs t car a = writeToRedis enq envs t car a)
   \<and> (cb_state (circuitBreaker a) \<noteq> HALF_OPEN \<and> stateManager a = REDIS_MODE \<longrightarrow>
      writeCar enq envs t car a = writeToRedis enq envs t car a)
   \<and> (cb_state (circuitBreaker a) \<noteq> HALF_OPEN \<and> stateManager a = SQLITE_MODE \<longrightarrow>
      writeCar enq envs t car a = writeToSqlite envs car a
      \<and> remoteCalls (snd (writeCar enq envs t car a)) = remoteCalls a)
   \<and> (wh_queue a \<and> cb_state (circuitBreaker a) = HALF_OPEN \<longrightarrow>
      remoteCalls (snd (writeCar enq envs t car a)) = remoteCalls a @ [AddCar car])
   \<and> (wh_queue a \<and> cb_state (circuitBreaker a) = CLOSED \<and> stateManager a = REDIS_MODE \<longrightarrow>
      remoteCalls (snd (writeCar enq envs t car a)) = remoteCalls a @ [AddCar car])
   \<and> (wh_queue a \<and> cb_state (circuitBreaker a) = OPEN \<longrightarrow>
      writeToRedis enq envs t car a = writeToSqlite envs car (a\<lparr>stateManager := SQLITE_MODE\<rparr>)
      \<and> stateManager (snd (writeToRedis enq envs t car a)) = SQLITE_MODE
      \<and> remoteCalls (snd (writeToRedis enq envs t car a)) = remoteCalls a
      \<and> (fst (writeToRedis enq envs t car a), sqliteManager (snd (writeToRedis enq envs t car a)))
          = writeToSqliteFrom envs car 0 maxRetries (sqliteManager a))"
proof -
  have r1: "cb_state (circuitBreaker a) = HALF_OPEN \<Longrightarrow>
      writeCar enq envs t car a = writeToRedis enq envs t car a"
    by (simp add: writeCar_def)
  have r2: "cb_state (circuitBreaker a) \<noteq> HALF_OPEN \<and> stateManager a = REDIS_MODE \<Longrightarrow>
      writeCar enq envs t car a = writeToRedis enq envs t car a"
    by (simp add: writeCar_def)
  have r3: "cb_state (circuitBreaker a) \<noteq> HALF_OPEN \<and> stateManager a = SQLITE_MODE \<Longrightarrow>
      writeCar enq envs t car a = writeToSqlite envs car a
      \<and> remoteCalls (snd (writeCar enq envs t car a)) = remoteCalls a"
    by (simp add: writeCar_def)
  have r4: "wh_queue a \<and> cb_state (circuitBreaker a) = HALF_OPEN \<Longrightarrow>
      remoteCalls (snd (writeCar enq envs t car a)) = remoteCalls a @ [AddCar car]"
    by (simp add: r1 writeToRedis_remoteCalls isOpen_def)
  have r5: "wh_queue a \<and> cb_state (circuitBreaker a) = CLOSED \<and> stateManager a = REDIS_MODE \<Longrightarrow>
      remoteCalls (snd (writeCar enq envs t car a)) = remoteCalls a @ [AddCar car]"
    by (simp add: writeCar_def writeToRedis_remoteCalls isOpen_def)
  have r6: "wh_queue a \<and> cb_state (circuitBreaker a) = OPEN \<Longrightarrow>
      writeToRedis enq envs t car a = writeToSqlite envs car (a\<lparr>stateManager := SQLITE_MODE\<rparr>)
      \<and> stateManager (snd (writeToRedis enq envs t car a)) = SQLITE_MODE
      \<and> remoteCalls (snd (writeToRedis enq envs t car a)) = remoteCalls a
      \<and> (fst (writeToRedis enq envs t car a), sqliteManager (snd (writeToRedis enq envs t car a)))
          = writeToSqliteFrom envs car 0 maxRetries (sqliteManager a)"
    using writeToSqlite_store [of envs car "a\<lparr>stateManager := SQLITE_MODE\<rparr>"]
    by (simp add: writeToRedis_open isOpen_def)
  show ?thesis using r1 r2 r3 r4 r5 r6 by blast
qed

theorem writeCar_routing_witness:
  "remoteCalls (snd (writeCar (Inr (Some ''7'')) sampleEnvs 1000 sampleCar
      (sampleApp\<lparr>stateManager := SQLITE_MODE,
                 circuitBreaker := (circuitBreaker sampleApp)\<lparr>cb_state := HALF_OPEN\<rparr>\<rparr>)))
     = [AddCar sampleCar]
   \<and> remoteCalls (snd (writeCar (Inr (Some ''7'')) sampleEnvs 1000 sampleCar sampleApp))
     = [AddCar sampleCar]
   \<and> remoteCalls (snd (writeCar (Inr (Some ''7'')) sampleEnvs 1000 sampleCar
      (sampleApp\<lparr>stateManager := SQLITE_MODE\<rparr>))) = []
   \<and> stateManager (snd (writeToRedis (Inr (Some ''7'')) sampleEnvs 1000 sampleCar
      (sampleApp\<lparr>circuitBreaker := (circuitBreaker sampleApp)\<lparr>cb_state := OPEN\<rparr>\<rparr>)))
     = SQLITE_MODE
   \<and> remoteCalls (snd (writeToRedis (Inr (Some ''7'')) sampleEnvs 1000 sampleCar
      (sampleApp\<lparr>circuitBreaker := (circuitBreaker sampleApp)\<lparr>cb_state := OPEN\<rparr>\<rparr>))) = []"
proof -
  let ?half = "sampleApp\<lparr>stateManager := SQLITE_MODE,
                 circuitBreaker := (circuitBreaker sampleApp)\<lparr>cb_state := HALF_OPEN\<rparr>\<rparr>"
  let ?sq = "sampleApp\<lparr>stateManager := SQLITE_MODE\<rparr>"
  let ?op = "sampleApp\<lparr>circuitBreaker := (circuitBreaker sampleApp)\<lparr>cb_state := OPEN\<rparr>\<rparr>"
  let ?enq = "Inr (Some ''7'') :: JsError + string option"
  have h1: "wh_queue ?half \<and> cb_state (circuitBreaker ?half) = HALF_OPEN"
    by (simp add: sampleApp_def)
  have h2: "wh_queue sampleApp \<and> cb_state (circuitBreaker sampleApp) = CLOSED
      \<and> stateManager sampleApp = REDIS_MODE"
    by (simp add: sampleApp_def newCircuitBreaker_def)
  have h3: "cb_state (circuitBreaker ?sq) \<noteq> HALF_OPEN \<and> stateManager ?sq = SQLITE_MODE"
    by (simp add: sampleApp_def newCircuitBreaker_def)
  have h4: "wh_queue ?op \<and> cb_state (circuitBreaker ?op) = OPEN"
    by (simp add: sampleApp_def)
  have r: "remoteCalls ?half = []" "remoteCalls sampleApp = []" "remoteCalls ?sq = []"
    "remoteCalls ?op = []"
    by (simp_all add: sampleApp_def)
  from writeCar_routing [of ?half ?enq sampleEnvs 1000 sampleCar] h1
  have "remoteCalls (snd (writeCar ?enq sampleEnvs 1000 sampleCar ?half))
      = remoteCalls ?half @ [AddCar sampleCar]"
    by blast
  moreover from writeCar_routing [of sampleApp ?enq sampleEnvs 1000 sampleCar] h2
  have "remoteCalls (snd (writeCar ?enq sampleEnvs 1000 sampleCar sampleApp))
      = remoteCalls sampleApp @ [AddCar sampleCar]"
    by blast
  moreover from writeCar_routing [of ?sq ?enq sampleEnvs 1000 sampleCar] h3
  have "remoteCalls (snd (writeCar ?enq sampleEnvs 1000 sampleCar ?sq)) = remoteCalls ?sq"
    by blast
  moreover from writeCar_routing [of ?op ?enq sampleEnvs 1000 sampleCar] h4
  have "stateManager (snd (writeToRedis ?enq sampleEnvs 1000 sampleCar ?op)) = SQLITE_MODE
      \<and> remoteCalls (snd (writeToRedis ?enq sampleEnvs 1000 sampleCar ?op)) = remoteCalls ?op"
    by blast
  ultimately show ?thesis by (simp only: r append_Nil)
qed

text \<open>
  C7 (as amended). \<open>isRedisAvailable\<close> answers \<open>false\<close> on an open breaker without any
  remote call. With a client and a breaker that is not open it sends the ping and then,
  whether the ping succeeded, failed or timed out, runs the write test when the queue is
  set: the answer is that of the write test (\<open>false\<close> without a queue).
\<close>

theorem isRedisAvailable_probe:
  "(isOpen (circuitBreaker a) \<longrightarrow> isRedisAvailable ping probe a = (False, a))
   \<and> (redisClient (recoveryManager a) \<and> \<not> isOpen (circuitBreaker a) \<longrightarrow>
        isRedisAvailable ping probe a =
          (rm_queue (recoveryManager a) \<and> probe = Succeeds,
           a\<lparr>remoteCalls := remoteCalls a @ [Ping]
                @ (if rm_queue (recoveryManager a) then [AddHealthCheck] else [])\<rparr>))"
  by (simp add: isRedisAvailable_def testRedisWrite_def Let_def)

theorem isRedisAvailable_probe_witness:
  "isOpen (circuitBreaker (sampleApp\<lparr>circuitBreaker := (circuitBreaker sampleApp)\<lparr>cb_state := OPEN\<rparr>\<rparr>))
   \<and> isRedisAvailable Succeeds Succeeds
        (sampleApp\<lparr>circuitBreaker := (circuitBreaker sampleApp)\<lparr>cb_state := OPEN\<rparr>\<rparr>)
       = (False, sampleApp\<lparr>circuitBreaker := (circuitBreaker sampleApp)\<lparr>cb_state := OPEN\<rparr>\<rparr>)
   \<and> redisClient (recoveryManager sampleApp) \<and> \<not> isOpen (circuitBreaker sampleApp)
   \<and> fst (isRedisAvailable Fails Succeeds sampleApp) = True
   \<and> remoteCalls (snd (isRedisAvailable Fails Succeeds sampleApp)) = [Ping, AddHealthCheck]"
proof -
  let ?op = "sampleApp\<lparr>circuitBreaker := (circuitBreaker sampleApp)\<lparr>cb_state := OPEN\<rparr>\<rparr>"
  have h1: "isOpen (circuitBreaker ?op)" by (simp add: isOpen_def)
  have h2: "redisClient (recoveryManager sampleApp) \<and> \<not> isOpen (circuitBreaker sampleApp)"
    by (simp add: sampleApp_def isOpen_def newCircuitBreaker_def)
  have q: "rm_queue (recoveryManager sampleApp)" "remoteCalls sampleApp = []"
    by (simp_all add: sampleApp_def)
  from isRedisAvailable_probe [of ?op Succeeds Succeeds] h1
  have a: "isRedisAvailable Succeeds Succeeds ?op = (False, ?op)" by blast
  from isRedisAvailable_probe [of sampleApp Fails Succeeds] h2
  have "isRedisAvailable Fails Succeeds sampleApp =
          (rm_queue (recoveryManager sampleApp) \<and> Succeeds = Succeeds,
           sampleApp\<lparr>remoteCalls := remoteCalls sampleApp @ [Ping]
                @ (if rm_queue (recoveryManager sampleApp) then [AddHealthCheck] else [])\<rparr>)"
    by blast
  with q have "fst (isRedisAvailable Fails Succeeds sampleApp) = True
      \<and> remoteCalls (snd (isRedisAvailable Fails Succeeds sampleApp)) = [Ping, AddHealthCheck]"
    by simp
  with a h1 h2 show ?thesis by blast
qed

theorem isRedisAvailable_probe_counterexample:
  "isRedisAvailable Succeeds Succeeds sampleApp
     = (True, sampleApp\<lparr>remoteCalls := [Ping, AddHealthCheck]\<rparr>)"
  by (simp add: isRedisAvailable_def testRedisWrite_def Let_def sampleApp_def isOpen_def
      newCircuitBreaker_def)

lemma saveCar_buffered:
  "\<not> isShuttingDown s \<Longrightarrow> Suc (length (writeBuffer s)) < batchSize \<Longrightarrow>
     saveCar env car s = (Inr (), s\<lparr>writeBuffer := writeBuffer s @ [car], flushTimer := True\<rparr>)"
  by (cases "flushTimer s") (simp_all add: saveCar_def Let_def)

lemma writeToSqliteFrom_buffered:
  "\<not> isShuttingDown s \<Longrightarrow> Suc (length (writeBuffer s)) < batchSize \<Longrightarrow>
     writeToSqliteFrom envs car k n s
       = (Inr (), s\<lparr>writeBuffer := writeBuffer s @ [car], flushTimer := True\<rparr>)"
  by (cases n) (simp_all add: saveCar_buffered)

lemma writeToRedis_transport_failure:
  assumes q: "wh_queue a" and no: "\<not> isOpen (circuitBreaker a)"
    and tr: "isRedisConnectionError error"
  shows "circuitBreaker (snd (writeToRedis (Inl error) envs t car a)) = recordFailure (circuitBreaker a)
    \<and> remoteCalls (snd (writeToRedis (Inl error) envs t car a)) = remoteCalls a @ [AddCar car]
    \<and> (isOpen (recordFailure (circuitBreaker a)) \<longrightarrow>
         stateManager (snd (writeToRedis (Inl error) envs t car a)) = SQLITE_MODE
         \<and> metrics (snd (writeToRedis (Inl error) envs t car a)) =
             incrementSqliteFallbackCount
               (recordStateTransitionToSqlite t (stateManager a)
                  (if stateManager a = REDIS_MODE
                   then recordMasterFailure t (message error) (metrics a) else metrics a)))
    \<and> (\<not> isOpen (recordFailure (circuitBreaker a)) \<longrightarrow>
         stateManager (snd (writeToRedis (Inl error) envs t car a)) = stateManager a
         \<and> metrics (snd (writeToRedis (Inl error) envs t car a)) =
             incrementSqliteFallbackCount (metrics a)
         \<and> sqliteFallbackCount (metrics (snd (writeToRedis (Inl error) envs t car a))) =
             sqliteFallbackCount (metrics a) + 1)
    \<and> (fst (writeToRedis (Inl error) envs t car a),
        sqliteManager (snd (writeToRedis (Inl error) envs t car a)))
         = writeToSqliteFrom envs car 0 maxRetries (sqliteManager a)
    \<and> (\<not> isShuttingDown (sqliteManager a)
        \<and> Suc (length (writeBuffer (sqliteManager a))) < batchSize \<longrightarrow>
         fst (writeToRedis (Inl error) envs t car a) = Inr ()
         \<and> writeBuffer (sqliteManager (snd (writeToRedis (Inl error) envs t car a)))
             = writeBuffer (sqliteManager a) @ [car])"
proof -
  let ?b = "recordFailure (circuitBreaker a)"
  let ?a2 = "a\<lparr>remoteCalls := remoteCalls a @ [AddCar car], circuitBreaker := ?b\<rparr>"
  let ?a3 = "if isOpen ?b then
               ?a2\<lparr>stateManager := SQLITE_MODE,
                    metrics := recordStateTransitionToSqlite t (stateManager a)
                      (if stateManager a = REDIS_MODE
                       then recordMasterFailure t (message error) (metrics a) else metrics a)\<rparr>
             else ?a2"
  let ?a4 = "?a3\<lparr>metrics := incrementSqliteFallbackCount (metrics ?a3)\<rparr>"
  have w: "writeToRedis (Inl error) envs t car a = writeToSqlite envs car ?a4"
    using q no tr by (simp add: writeToRedis_def Let_def)
  have st: "(fst (writeToSqlite envs car ?a4), sqliteManager (snd (writeToSqlite envs car ?a4)))
      = writeToSqliteFrom envs car 0 maxRetries (sqliteManager a)"
    by (simp add: writeToSqlite_store)
  have c1: "circuitBreaker (snd (writeToRedis (Inl error) envs t car a)) = ?b"
    by (simp add: w)
  have c2: "remoteCalls (snd (writeToRedis (Inl error) envs t car a)) = remoteCalls a @ [AddCar car]"
    by (simp add: w)
  have c3: "isOpen ?b \<Longrightarrow>
         stateManager (snd (writeToRedis (Inl error) envs t car a)) = SQLITE_MODE
         \<and> metrics (snd (writeToRedis (Inl error) envs t car a)) =
             incrementSqliteFallbackCount
               (recordStateTransitionToSqlite t (stateManager a)
                  (if stateManager a = REDIS_MODE
                   then recordMasterFailure t (message error) (metrics a) else metrics a))"
    by (simp add: w)
  have c4: "\<not> isOpen ?b \<Longrightarrow>
         stateManager (snd (writeToRedis (Inl error) envs t car a)) = stateManager a
         \<and> metrics (snd (writeToRedis (Inl error) envs t car a)) =
             incrementSqliteFallbackCount (metrics a)
         \<and> sqliteFallbackCount (metrics (snd (writeToRedis (Inl error) envs t car a))) =
             sqliteFallbackCount (metrics a) + 1"
    by (simp add: w incrementSqliteFallbackCount_def Let_def)
  have c5: "(fst (writeToRedis (Inl error) envs t car a),
        sqliteManager (snd (writeToRedis (Inl error) envs t car a)))
         = writeToSqliteFrom envs car 0 maxRetries (sqliteManager a)"
    using st by (simp only: w)
  have c6: "\<not> isShuttingDown (sqliteManager a)
        \<and> Suc (length (writeBuffer (sqliteManager a))) < batchSize \<Longrightarrow>
         fst (writeToRedis (Inl error) envs t car a) = Inr ()
         \<and> writeBuffer (sqliteManager (snd (writeToRedis (Inl error) envs t car a)))
             = writeBuffer (sqliteManager a) @ [car]"
  proof -
    assume h: "\<not> isShuttingDown (sqliteManager a)
        \<and> Suc (length (writeBuffer (sqliteManager a))) < batchSize"
    then have "writeToSqliteFrom envs car 0 maxRetries (sqliteManager a)
       = (Inr (), (sqliteManager a)\<lparr>writeBuffer := writeBuffer (sqliteManager a) @ [car],
                                    flushTimer := True\<rparr>)"
      by (simp add: writeToSqliteFrom_buffered)
    with c5 show ?thesis by simp
  qed
  show ?thesis using c1 c2 c3 c4 c5 c6 by blast
qed


text \<open>
  C1 (as amended). When \<open>writeCar\<close> attempts the remote (queue set, breaker not open,
  and breaker half-open or state \<open>REDIS_MODE\<close>) and \<open>queue.add\<close> throws an error that
  \<open>isRedisConnectionError\<close> accepts, the breaker gets \<open>recordFailure()\<close>. If it is open
  afterwards the state becomes \<open>SQLITE_MODE\<close> and the metrics get the master failure
  (only from \<open>REDIS_MODE\<close>) and the transition to SQLite; otherwise the state stays. In
  both cases the fallback counter is then incremented and the record is handed to
  \<open>writeToSqlite\<close>: store and result are those of the \<open>saveCar\<close> attempts, and on a store
  that is not shutting down and whose buffer stays below the batch size the car is
  appended to the buffer.
\<close>

theorem writeCar_transport_failure:
  assumes q: "wh_queue a" and no: "cb_state (circuitBreaker a) \<noteq> OPEN"
    and route: "cb_state (circuitBreaker a) = HALF_OPEN \<or> stateManager a = REDIS_MODE"
    and tr: "isRedisConnectionError error"
  shows "circuitBreaker (snd (writeCar (Inl error) envs t car a)) = recordFailure (circuitBreaker a)
    \<and> remoteCalls (snd (writeCar (Inl error) envs t car a)) = remoteCalls a @ [AddCar car]
    \<and> (isOpen (recordFailure (circuitBreaker a)) \<longrightarrow>
         stateManager (snd (writeCar (Inl error) envs t car a)) = SQLITE_MODE
         \<and> metrics (snd (writeCar (Inl error) envs t car a)) =
             incrementSqliteFallbackCount
               (recordStateTransitionToSqlite t (stateManager a)
                  (if stateManager a = REDIS_MODE
                   then recordMasterFailure t (message error) (metrics a) else metrics a)))
    \<and> (\<not> isOpen (recordFailure (circuitBreaker a)) \<longrightarrow>
         stateManager (snd (writeCar (Inl error) envs t car a)) = stateManager a
         \<and> metrics (snd (writeCar (Inl error) envs t car a)) =
             incrementSqliteFallbackCount (metrics a)
         \<and> sqliteFallbackCount (metrics (snd (writeCar (Inl error) envs t car a))) =
             sqliteFallbackCount (metrics a) + 1)
    \<and> (fst (writeCar (Inl error) envs t car a),
        sqliteManager (snd (writeCar (Inl error) envs t car a)))
         = writeToSqliteFrom envs car 0 maxRetries (sqliteManager a)
    \<and> (\<not> isShuttingDown (sqliteManager a)
        \<and> Suc (length (writeBuffer (sqliteManager a))) < batchSize \<longrightarrow>
         fst (writeCar (Inl error) envs t car a) = Inr ()
         \<and> writeBuffer (sqliteManager (snd (writeCar (Inl error) envs t car a)))
             = writeBuffer (sqliteManager a) @ [car])"
proof -
  from route have w: "writeCar (Inl error) envs t car a = writeToRedis (Inl error) envs t car a"
    by (auto simp: writeCar_def)
  from no have n: "\<not> isOpen (circuitBreaker a)" by (simp add: isOpen_def)
  show ?thesis unfolding w by (rule writeToRedis_transport_failure [OF q n tr])
qed

theorem writeCar_transport_failure_witness:
  "wh_queue sampleApp \<and> cb_state (circuitBreaker sampleApp) \<noteq> OPEN
   \<and> stateManager sampleApp = REDIS_MODE \<and> isRedisConnectionError refused
   \<and> \<not> isOpen (recordFailure (circuitBreaker sampleApp))
   \<and> sqliteFallbackCount (metrics (snd (writeCar (Inl refused) sampleEnvs 1000 sampleCar sampleApp)))
       = 1
   \<and> writeBuffer (sqliteManager (snd (writeCar (Inl refused) sampleEnvs 1000 sampleCar sampleApp)))
       = [sampleCar]
   \<and> isOpen (recordFailure (circuitBreaker
         (sampleApp\<lparr>circuitBreaker := (circuitBreaker sampleApp)\<lparr>failureCount := 4\<rparr>\<rparr>)))
   \<and> stateManager (snd (writeCar (Inl refused) sampleEnvs 1000 sampleCar
         (sampleApp\<lparr>circuitBreaker := (circuitBreaker sampleApp)\<lparr>failureCount := 4\<rparr>\<rparr>)))
       = SQLITE_MODE
   \<and> writeBuffer (sqliteManager (snd (writeCar (Inl refused) sampleEnvs 1000 sampleCar
         (sampleApp\<lparr>circuitBreaker := (circuitBreaker sampleApp)\<lparr>failureCount := 4\<rparr>\<rparr>))))
       = [sampleCar]"
proof -
  let ?a4 = "sampleApp\<lparr>circuitBreaker := (circuitBreaker sampleApp)\<lparr>failureCount := 4\<rparr>\<rparr>"
  have q4: "wh_queue ?a4" by (simp add: sampleApp_def)
  have no4: "cb_state (circuitBreaker ?a4) \<noteq> OPEN"
    by (simp add: sampleApp_def newCircuitBreaker_def)
  have route4: "cb_state (circuitBreaker ?a4) = HALF_OPEN \<or> stateManager ?a4 = REDIS_MODE"
    by (simp add: sampleApp_def)
  have o4: "isOpen (recordFailure (circuitBreaker ?a4))"
    by (simp add: sampleApp_def newCircuitBreaker_def envOrDefault_def recordFailure_def
        open_breaker_def startCooldown_def clearCooldownTimer_def isOpen_def Let_def)
  have s4: "\<not> isShuttingDown (sqliteManager ?a4)
        \<and> Suc (length (writeBuffer (sqliteManager ?a4))) < batchSize"
    "writeBuffer (sqliteManager ?a4) = []"
    by (simp_all add: sampleApp_def sampleStore_def batchSize_def)
  have q: "wh_queue sampleApp" by (simp add: sampleApp_def)
  have no: "cb_state (circuitBreaker sampleApp) \<noteq> OPEN"
    by (simp add: sampleApp_def newCircuitBreaker_def)
  have r: "stateManager sampleApp = REDIS_MODE" by (simp add: sampleApp_def)
  then have route: "cb_state (circuitBreaker sampleApp) = HALF_OPEN \<or> stateManager sampleApp = REDIS_MODE"
    by simp
  have e: "isRedisConnectionError refused"
    by (simp add: isRedisConnectionError_def refused_def newError_def orEmpty_def
        connectionErrorCodes_def Let_def)
  have c: "\<not> isOpen (recordFailure (circuitBreaker sampleApp))"
    by (simp add: sampleApp_def newCircuitBreaker_def envOrDefault_def recordFailure_def
        isOpen_def Let_def)
  have s: "\<not> isShuttingDown (sqliteManager sampleApp)
        \<and> Suc (length (writeBuffer (sqliteManager sampleApp))) < batchSize"
    by (simp add: sampleApp_def sampleStore_def batchSize_def)
  have m: "sqliteFallbackCount (metrics sampleApp) = 0" "writeBuffer (sqliteManager sampleApp) = []"
    by (simp_all add: sampleApp_def sampleStore_def newMetrics_def)
  note t = writeCar_transport_failure [OF q no route e, of sampleEnvs 1000 sampleCar]
  from t c have "sqliteFallbackCount (metrics (snd (writeCar (Inl refused) sampleEnvs 1000 sampleCar sampleApp)))
       = sqliteFallbackCount (metrics sampleApp) + 1"
    by blast
  moreover from t s have "writeBuffer (sqliteManager (snd (writeCar (Inl refused) sampleEnvs 1000 sampleCar sampleApp)))
       = writeBuffer (sqliteManager sampleApp) @ [sampleCar]"
    by blast
  moreover note t4 = writeCar_transport_failure [OF q4 no4 route4 e, of sampleEnvs 1000 sampleCar]
  from t4 o4 have "stateManager (snd (writeCar (Inl refused) sampleEnvs 1000 sampleCar ?a4)) = SQLITE_MODE"
    by blast
  moreover from t4 s4(1) have "writeBuffer (sqliteManager (snd (writeCar (Inl refused) sampleEnvs 1000 sampleCar ?a4)))
       = writeBuffer (sqliteManager ?a4) @ [sampleCar]"
    by blast
  ultimately show ?thesis using q no r e c m o4 s4(2) by simp
qed

theorem writeToRedis_closed_fallback_counterexample:
  "isRedisConnectionError refused
   \<and> cb_state (circuitBreaker (snd (writeCar (Inl refused) sampleEnvs 1000 sampleCar sampleApp))) = CLOSED
   \<and> failureCount (circuitBreaker (snd (writeCar (Inl refused) sampleEnvs 1000 sampleCar sampleApp))) = 1
   \<and> writeBuffer (sqliteManager sampleApp) = []
   \<and> writeBuffer (sqliteManager (snd (writeCar (Inl refused) sampleEnvs 1000 sampleCar sampleApp))) = [sampleCar]
   \<and> getSqliteFallbackCount (metrics sampleApp) = 0
   \<and> getSqliteFallbackCount (metrics (snd (writeCar (Inl refused) sampleEnvs 1000 sampleCar sampleApp))) = 1"
proof -
  have e: "isRedisConnectionError refused"
    by (simp add: isRedisConnectionError_def refused_def newError_def orEmpty_def
        connectionErrorCodes_def Let_def)
  have w: "writeCar (Inl refused) sampleEnvs 1000 sampleCar sampleApp
      = (Inr (), sampleApp\<lparr>
           remoteCalls := [AddCar sampleCar],
           circuitBreaker := (newCircuitBreaker None None)\<lparr>failureCount := 1\<rparr>,
           metrics := newMetrics\<lparr>sqliteFallbackCount := 1\<rparr>,
           sqliteManager := (sampleStore [])\<lparr>writeBuffer := [sampleCar], flushTimer := True\<rparr>\<rparr>)"
    using e
    by (simp add: writeCar_def writeToRedis_def writeToSqlite_def maxRetries_def saveCar_def
        batchSize_def sampleApp_def sampleStore_def newCircuitBreaker_def envOrDefault_def
        isOpen_def recordFailure_def Let_def newMetrics_def incrementSqliteFallbackCount_def
        numeral_2_eq_2)
  show ?thesis
    unfolding w using e
    by (simp add: sampleApp_def sampleStore_def newCircuitBreaker_def envOrDefault_def
        newMetrics_def getSqliteFallbackCount_def)
qed

section \<open>Properties of the metrics session tracker\<close>

lemmas metrics_defs =
  recordMasterFailure_def recordSentinelPromotion_def recordStateTransitionToSqlite_def
  recordStateTransitionToRedis_def incrementSqliteFallbackCount_def recordRecoveryStarted_def
  recordRecoveryCompleted_def logEvent_def newSession_def

lemma sessionInSync_step: "sessionInSync m \<Longrightarrow> sessionInSync (metricsStep c m)"
  by (cases c; cases "currentSession m")
     (auto simp: sessionInSync_def noActiveSession_def metrics_defs Let_def)

lemma sessionInSync_run: "sessionInSync m \<Longrightarrow> sessionInSync (metricsRun cs m)"
  by (induction cs arbitrary: m) (simp_all add: sessionInSync_step)

lemma sessionInSync_new: "sessionInSync newMetrics"
  by (simp add: sessionInSync_def newMetrics_def)

lemma toRedis_event:
  "sessionInSync m \<Longrightarrow>
     \<exists>e. logged (recordStateTransitionToRedis t p m) = logged m @ [e]
        \<and> eventType e = STATE_TRANSITION_TO_REDIS
        \<and> ev_sqliteFallbackCount e = Some (sqliteFallbackCount m)"
  by (cases "currentSession m")
     (auto simp: sessionInSync_def noActiveSession_def metrics_defs Let_def event_def)

lemma active_kept:
  assumes "\<forall>t p. c \<noteq> TransitionToRedis t p" and "\<not> noActiveSession m"
  shows "\<not> noActiveSession (metricsStep c m)
      \<and> map_option sessionId (currentSession (metricsStep c m)) = map_option sessionId (currentSession m)
      \<and> totalFailoverSessions (metricsStep c m) = totalFailoverSessions m"
  using assms
  by (cases c; cases "currentSession m")
     (auto simp: noActiveSession_def metrics_defs Let_def)

text \<open>
  C8 (as amended). The tracker holds its session in one nullable field. A call other
  than \<open>recordStateTransitionToRedis\<close> on an active session keeps that session active
  and opens no new one; \<open>recordStateTransitionToRedis\<close> always leaves no session. On that
  close, in any state reached from the initial one, the emitted
  \<open>STATE_TRANSITION_TO_REDIS\<close> event carries the process-wide fallback count; the count
  itself is not changed by the close, so a read right after it returns the same value.
  The count is set to 0 when \<open>recordMasterFailure\<close> or \<open>recordStateTransitionToSqlite\<close>
  opens the next session.
\<close>

theorem metrics_session_close:
  "currentSession (recordStateTransitionToRedis t p m) = None
   \<and> getSqliteFallbackCount (recordStateTransitionToRedis t p m) = getSqliteFallbackCount m
   \<and> (\<exists>e. logged (recordStateTransitionToRedis t p (metricsRun cs newMetrics))
             = logged (metricsRun cs newMetrics) @ [e]
          \<and> eventType e = STATE_TRANSITION_TO_REDIS
          \<and> ev_sqliteFallbackCount e = Some (getSqliteFallbackCount (metricsRun cs newMetrics)))
   \<and> ((\<forall>t p. c \<noteq> TransitionToRedis t p) \<and> \<not> noActiveSession m \<longrightarrow>
        \<not> noActiveSession (metricsStep c m)
        \<and> map_option sessionId (currentSession (metricsStep c m))
            = map_option sessionId (currentSession m)
        \<and> totalFailoverSessions (metricsStep c m) = totalFailoverSessions m)
   \<and> (noActiveSession m \<longrightarrow>
        getSqliteFallbackCount (recordMasterFailure t e m) = 0
        \<and> getSqliteFallbackCount (recordStateTransitionToSqlite t p m) = 0)"
proof -
  have a: "currentSession (recordStateTransitionToRedis t p m) = None"
    by (simp add: metrics_defs Let_def)
  have b: "getSqliteFallbackCount (recordStateTransitionToRedis t p m) = getSqliteFallbackCount m"
    by (simp add: metrics_defs Let_def getSqliteFallbackCount_def)
  have c: "\<exists>e. logged (recordStateTransitionToRedis t p (metricsRun cs newMetrics))
             = logged (metricsRun cs newMetrics) @ [e]
          \<and> eventType e = STATE_TRANSITION_TO_REDIS
          \<and> ev_sqliteFallbackCount e = Some (getSqliteFallbackCount (metricsRun cs newMetrics))"
    unfolding getSqliteFallbackCount_def
    by (rule toRedis_event) (rule sessionInSync_run [OF sessionInSync_new])
  have d: "(\<forall>t p. c \<noteq> TransitionToRedis t p) \<and> \<not> noActiveSession m \<Longrightarrow>
        \<not> noActiveSession (metricsStep c m)
        \<and> map_option sessionId (currentSession (metricsStep c m))
            = map_option sessionId (currentSession m)
        \<and> totalFailoverSessions (metricsStep c m) = totalFailoverSessions m"
    using active_kept by blast
  have e: "noActiveSession m \<Longrightarrow>
        getSqliteFallbackCount (recordMasterFailure t e m) = 0
        \<and> getSqliteFallbackCount (recordStateTransitionToSqlite t p m) = 0"
    by (simp add: metrics_defs Let_def getSqliteFallbackCount_def)
  show ?thesis using a b c d e by blast
qed

theorem metrics_session_close_witness:
  "noActiveSession (newMetrics\<lparr>sqliteFallbackCount := 4\<rparr>)
   \<and> getSqliteFallbackCount (recordMasterFailure 100 None (newMetrics\<lparr>sqliteFallbackCount := 4\<rparr>)) = 0
   \<and> \<not> noActiveSession (recordMasterFailure 100 None newMetrics)
   \<and> \<not> noActiveSession (metricsStep IncrementFallback (recordMasterFailure 100 None newMetrics))
   \<and> currentSession (recordStateTransitionToRedis 200 SQLITE_MODE
        (recordMasterFailure 100 None newMetrics)) = None"
proof -
  let ?m1 = "newMetrics\<lparr>sqliteFallbackCount := 4\<rparr>"
  let ?m2 = "recordMasterFailure 100 None newMetrics"
  have h1: "noActiveSession ?m1" by (simp add: noActiveSession_def newMetrics_def)
  have h2: "\<not> noActiveSession ?m2"
    by (simp add: noActiveSession_def newMetrics_def metrics_defs Let_def)
  have h3: "\<forall>t p. IncrementFallback \<noteq> TransitionToRedis t p" by simp
  from metrics_session_close [of 100 SQLITE_MODE ?m1 "[]" IncrementFallback None] h1
  have a: "getSqliteFallbackCount (recordMasterFailure 100 None ?m1) = 0" by blast
  from metrics_session_close [of 200 SQLITE_MODE ?m2 "[]" IncrementFallback None] h2 h3
  have b: "\<not> noActiveSession (metricsStep IncrementFallback ?m2)
      \<and> currentSession (recordStateTransitionToRedis 200 SQLITE_MODE ?m2) = None"
    by blast
  from h1 a h2 b show ?thesis by blast
qed

theorem metrics_session_close_counterexample:
  "currentSession
     (metricsRun [MasterFailure 100 None, TransitionToSqlite 100 REDIS_MODE, IncrementFallback,
                  IncrementFallback, TransitionToRedis 200 SQLITE_MODE] newMetrics) = None
   \<and> getSqliteFallbackCount
     (metricsRun [MasterFailure 100 None, TransitionToSqlite 100 REDIS_MODE, IncrementFallback,
                  IncrementFallback, TransitionToRedis 200 SQLITE_MODE] newMetrics) = 2"
  by (simp add: metrics_defs Let_def getSqliteFallbackCount_def newMetrics_def
      noActiveSession_def)

section \<open>Properties of the marking operations\<close>

lemma pendingRow_pow:
  "(pendingRow ^^ n) r =
     (if n = 0 then r else r\<lparr>status := PENDING, retry_count := retry_count r + int n\<rparr>)"
proof (induction n)
  case 0
  then show ?case by simp
next
  case (Suc n)
  then show ?case by (cases n) (simp_all add: pendingRow_def)
qed

lemma id_col_pendingRow [simp]: "id_col (pendingRow r) = id_col r"
  by (simp add: pendingRow_def)

lemma id_col_sentRow [simp]: "id_col (sentRow j r) = id_col r"
  by (simp add: sentRow_def)

lemma markPendingLoop_map:
  "markPendingLoop ids rows = map (\<lambda>r. (pendingRow ^^ count_list ids (id_col r)) r) rows"
proof (induction ids arbitrary: rows)
  case Nil
  then show ?case by simp
next
  case (Cons c rest)
  show ?case
    by (simp add: Cons.IH updateWhereId_def funpow_swap1)
qed

lemma markPendingLoop_row:
  "markPendingLoop ids rows =
     map (\<lambda>r. if id_col r \<in> set ids
               then r\<lparr>status := PENDING, retry_count := retry_count r + int (count_list ids (id_col r))\<rparr>
               else r) rows"
  by (simp add: markPendingLoop_map pendingRow_pow count_list_0_iff)

lemma length_markSentLoop [simp]: "length (markSentLoop jobs i ids rows) = length rows"
  by (induction ids arbitrary: i rows) (simp_all add: updateWhereId_def)

lemma markSentLoop_other:
  "n < length rows \<Longrightarrow> id_col (rows ! n) \<notin> set ids \<Longrightarrow> markSentLoop jobs i ids rows ! n = rows ! n"
  by (induction ids arbitrary: i rows) (simp_all add: updateWhereId_def)

lemma markSentLoop_listed:
  "n < length rows \<Longrightarrow> id_col (rows ! n) \<in> set ids \<Longrightarrow>
     \<exists>job. markSentLoop jobs i ids rows ! n = (rows ! n)\<lparr>status := SENT, redis_job_id := job\<rparr>"
proof (induction ids arbitrary: i rows)
  case Nil
  then show ?case by simp
next
  case (Cons c rest)
  let ?rows1 = "updateWhereId (sentRow (jobIdAt jobs i)) c rows"
  have len: "n < length ?rows1" using Cons.prems by (simp add: updateWhereId_def)
  have id1: "id_col (?rows1 ! n) = id_col (rows ! n)"
    using Cons.prems by (simp add: updateWhereId_def)
  show ?case
  proof (cases "id_col (rows ! n) \<in> set rest")
    case True
    with id1 have "id_col (?rows1 ! n) \<in> set rest" by simp
    from Cons.IH [OF len this, of "Suc i"] obtain job where
      j: "markSentLoop jobs (Suc i) rest ?rows1 ! n = (?rows1 ! n)\<lparr>status := SENT, redis_job_id := job\<rparr>"
      by blast
    have "(?rows1 ! n)\<lparr>status := SENT, redis_job_id := job\<rparr>
          = (rows ! n)\<lparr>status := SENT, redis_job_id := job\<rparr>"
      using Cons.prems by (simp add: updateWhereId_def sentRow_def)
    with j show ?thesis by auto
  next
    case False
    with Cons.prems have c: "id_col (rows ! n) = c" by simp
    from False id1 have "id_col (?rows1 ! n) \<notin> set rest" by simp
    from markSentLoop_other [OF len this]
    have "markSentLoop jobs (Suc i) rest ?rows1 ! n = ?rows1 ! n" .
    then show ?thesis using c Cons.prems by (auto simp: updateWhereId_def sentRow_def)
  qed
qed

lemma markPendingLoop_Nil [simp]: "markPendingLoop ids [] = []"
  by (induction ids) (simp_all add: updateWhereId_def)

lemma markSentLoop_Nil [simp]: "markSentLoop jobs i ids [] = []"
  by (induction ids arbitrary: i) (simp_all add: updateWhereId_def)

lemma markCarsAsPending_records:
  "records (snd (markCarsAsPending f carIds s)) = markPendingLoop (executed f carIds) (records s)"
  by (cases "db s"; cases "carIds = []")
     (simp_all add: markCarsAsPending_def records_def executed_def split: option.splits)

lemma markCarsAsSent_records:
  "records (snd (markCarsAsSent f carIds jobs s)) = markSentLoop jobs 0 (executed f carIds) (records s)"
  by (cases "db s"; cases "carIds = []")
     (simp_all add: markCarsAsSent_def records_def executed_def split: option.splits)

lemma claim_records:
  "db s = Some rows \<Longrightarrow> \<not> dbFails env \<Longrightarrow>
     records (snd (getAndMarkPendingCars env limit inst s))
       = map (\<lambda>r. if claimHit (selected_cars limit rows) r then claimRow inst (now env) r else r) rows"
  by (simp add: claim_rows records_def)

lemma flushBuffer_records:
  "\<exists>new. records (snd (flushBuffer env s)) = records s @ new \<and> (\<forall>r \<in> set new. status r = PENDING)"
proof (cases "writeBuffer s = [] \<or> db s = None")
  case True
  then have "records (snd (flushBuffer env s)) = records s @ []"
    by (auto simp: flushBuffer_def records_def Let_def)
  then show ?thesis by (metis empty_iff list.set(1))
next
  case False
  then obtain rows where rows: "db s = Some rows" and nb: "writeBuffer s \<noteq> []" by auto
  let ?new = "batchRows (instanceId s) env (writeBuffer s)"
  have p: "\<forall>r \<in> set ?new. status r = PENDING"
    by (auto simp: batchRows_def newRow_def)
  show ?thesis
  proof (cases "dbFails env \<or> \<not> distinct (map id_col (rows @ ?new))")
    case True
    with rows nb have "records (snd (flushBuffer env s)) = records s @ []"
      by (auto simp: flushBuffer_def records_def Let_def)
    then show ?thesis by (metis empty_iff list.set(1))
  next
    case False
    with rows nb have "records (snd (flushBuffer env s)) = records s @ ?new"
      by (auto simp: flushBuffer_def records_def Let_def)
    with p show ?thesis by blast
  qed
qed

lemma saveCar_records:
  "\<exists>new. records (snd (saveCar env car s)) = records s @ new \<and> (\<forall>r \<in> set new. status r = PENDING)"
proof (cases "\<not> isShuttingDown s \<and> length (writeBuffer s @ [car]) \<ge> batchSize")
  case True
  then have "saveCar env car s = flushBuffer env (s\<lparr>writeBuffer := writeBuffer s @ [car]\<rparr>)"
    by (simp add: saveCar_def Let_def)
  with flushBuffer_records [of env "s\<lparr>writeBuffer := writeBuffer s @ [car]\<rparr>"]
  show ?thesis by (simp add: records_def)
next
  case False
  then have "records (snd (saveCar env car s)) = records s @ []"
    by (auto simp: saveCar_def Let_def records_def)
  then show ?thesis by (metis empty_iff list.set(1))
qed

lemma count_list_distinct: "distinct xs \<Longrightarrow> x \<in> set xs \<Longrightarrow> count_list xs x = 1"
  by (induction xs) auto

text \<open>
  C9 (as amended). \<open>markCarsAsPending\<close>, when no statement is rejected, keeps the rows
  in place; a row whose id is listed gets status \<open>PENDING\<close> and its \<open>retry_count\<close> grows by
  the number of times its id occurs in the list (by one when the ids are distinct),
  every other column staying as it was, \<open>recovery_instance\<close> and \<open>recovery_started_at\<close>
  among them; a row that is not listed is unchanged. So a row that was claimed and is
  then released is \<open>PENDING\<close> and still carries the claimer's instance id and claim time.
  \<open>markCarsAsSent\<close> and \<open>markCarsAsPending\<close>, also when cut short by a rejected statement,
  never change these two columns, and \<open>saveCar\<close> and \<open>flushBuffer\<close> change no existing row.
\<close>

theorem markCarsAsPending_effect:
  "length (records (snd (markCarsAsPending None carIds s))) = length (records s)
   \<and> (\<forall>i < length (records s).
         records (snd (markCarsAsPending None carIds s)) ! i =
           (if id_col (records s ! i) \<in> set carIds
            then (records s ! i)\<lparr>status := PENDING,
                   retry_count := retry_count (records s ! i)
                                  + int (count_list carIds (id_col (records s ! i)))\<rparr>
            else records s ! i))
   \<and> (distinct carIds \<longrightarrow>
        (\<forall>i < length (records s). id_col (records s ! i) \<in> set carIds \<longrightarrow>
           retry_count (records (snd (markCarsAsPending None carIds s)) ! i)
             = retry_count (records s ! i) + 1))
   \<and> (db s = Some rows \<and> \<not> dbFails env \<longrightarrow>
        (\<forall>i < length rows.
           records (snd (getAndMarkPendingCars env limit inst s)) ! i \<noteq> rows ! i
           \<and> id_col (rows ! i) \<in> set carIds \<longrightarrow>
           status (records (snd (markCarsAsPending None carIds
                     (snd (getAndMarkPendingCars env limit inst s)))) ! i) = PENDING
           \<and> recovery_instance (records (snd (markCarsAsPending None carIds
                     (snd (getAndMarkPendingCars env limit inst s)))) ! i) = Some inst
           \<and> recovery_started_at (records (snd (markCarsAsPending None carIds
                     (snd (getAndMarkPendingCars env limit inst s)))) ! i) = Some (now env)))
   \<and> (\<forall>i < length (records s).
         recovery_instance (records (snd (markCarsAsPending f carIds s)) ! i)
           = recovery_instance (records s ! i)
         \<and> recovery_started_at (records (snd (markCarsAsPending f carIds s)) ! i)
           = recovery_started_at (records s ! i)
         \<and> recovery_instance (records (snd (markCarsAsSent f carIds jobs s)) ! i)
           = recovery_instance (records s ! i)
         \<and> recovery_started_at (records (snd (markCarsAsSent f carIds jobs s)) ! i)
           = recovery_started_at (records s ! i))
   \<and> take (length (records s)) (records (snd (flushBuffer env s))) = records s
   \<and> take (length (records s)) (records (snd (saveCar env car s))) = records s"
proof -
  have a: "length (records (snd (markCarsAsPending None carIds s))) = length (records s)"
    by (simp add: markCarsAsPending_records markPendingLoop_row)
  have b: "\<forall>i < length (records s).
         records (snd (markCarsAsPending None carIds s)) ! i =
           (if id_col (records s ! i) \<in> set carIds
            then (records s ! i)\<lparr>status := PENDING,
                   retry_count := retry_count (records s ! i)
                                  + int (count_list carIds (id_col (records s ! i)))\<rparr>
            else records s ! i)"
    by (simp add: markCarsAsPending_records markPendingLoop_row executed_def)
  have c: "distinct carIds \<Longrightarrow>
        (\<forall>i < length (records s). id_col (records s ! i) \<in> set carIds \<longrightarrow>
           retry_count (records (snd (markCarsAsPending None carIds s)) ! i)
             = retry_count (records s ! i) + 1)"
    using b by (simp add: count_list_distinct)
  have d: "db s = Some rows \<and> \<not> dbFails env \<Longrightarrow>
        (\<forall>i < length rows.
           records (snd (getAndMarkPendingCars env limit inst s)) ! i \<noteq> rows ! i
           \<and> id_col (rows ! i) \<in> set carIds \<longrightarrow>
           status (records (snd (markCarsAsPending None carIds
                     (snd (getAndMarkPendingCars env limit inst s)))) ! i) = PENDING
           \<and> recovery_instance (records (snd (markCarsAsPending None carIds
                     (snd (getAndMarkPendingCars env limit inst s)))) ! i) = Some inst
           \<and> recovery_started_at (records (snd (markCarsAsPending None carIds
                     (snd (getAndMarkPendingCars env limit inst s)))) ! i) = Some (now env))"
    by (auto simp: markCarsAsPending_records markPendingLoop_row executed_def claim_records
        claimRow_def split: if_splits)
  have e1: "\<forall>i < length (records s).
         recovery_instance (records (snd (markCarsAsPending f carIds s)) ! i)
           = recovery_instance (records s ! i)
         \<and> recovery_started_at (records (snd (markCarsAsPending f carIds s)) ! i)
           = recovery_started_at (records s ! i)"
    by (simp add: markCarsAsPending_records markPendingLoop_row)
  have e2: "\<forall>i < length (records s).
         recovery_instance (records (snd (markCarsAsSent f carIds jobs s)) ! i)
           = recovery_instance (records s ! i)
         \<and> recovery_started_at (records (snd (markCarsAsSent f carIds jobs s)) ! i)
           = recovery_started_at (records s ! i)"
  proof (intro allI impI)
    fix i assume i: "i < length (records s)"
    show "recovery_instance (records (snd (markCarsAsSent f carIds jobs s)) ! i)
           = recovery_instance (records s ! i)
         \<and> recovery_started_at (records (snd (markCarsAsSent f carIds jobs s)) ! i)
           = recovery_started_at (records s ! i)"
    proof (cases "id_col (records s ! i) \<in> set (executed f carIds)")
      case True
      from markSentLoop_listed [OF i True, of jobs 0] show ?thesis
        by (auto simp: markCarsAsSent_records)
    next
      case False
      from markSentLoop_other [OF i False, of jobs 0] show ?thesis
        by (simp add: markCarsAsSent_records)
    qed
  qed
  have g: "take (length (records s)) (records (snd (flushBuffer env s))) = records s"
    using flushBuffer_records [of env s] by auto
  have h: "take (length (records s)) (records (snd (saveCar env car s))) = records s"
    using saveCar_records [of env car s] by auto
  show ?thesis using a b c d e1 e2 g h by blast
qed


theorem markCarsAsPending_effect_witness:
  "distinct [''a'']
   \<and> db (sampleStore [sampleRow ''a'' 10 PENDING, sampleRow ''b'' 20 PENDING])
       = Some [sampleRow ''a'' 10 PENDING, sampleRow ''b'' 20 PENDING]
   \<and> \<not> dbFails (sampleEnv 1000)
   \<and> records (snd (markCarsAsPending None [''a'']
        (snd (getAndMarkPendingCars (sampleEnv 1000) 1 ''i1''
               (sampleStore [sampleRow ''a'' 10 PENDING, sampleRow ''b'' 20 PENDING])))))
       = [(sampleRow ''a'' 10 PENDING)\<lparr>retry_count := 1, recovery_instance := Some ''i1'',
                                         recovery_started_at := Some 1000\<rparr>,
          sampleRow ''b'' 20 PENDING]
   \<and> recovery_instance (records (snd (markCarsAsPending None [''a'']
        (snd (getAndMarkPendingCars (sampleEnv 1000) 1 ''i1''
               (sampleStore [sampleRow ''a'' 10 PENDING, sampleRow ''b'' 20 PENDING]))))) ! 0)
       = Some ''i1''"
proof -
  let ?rows = "[sampleRow ''a'' 10 PENDING, sampleRow ''b'' 20 PENDING]"
  let ?s = "sampleStore ?rows"
  let ?s1 = "snd (getAndMarkPendingCars (sampleEnv 1000) 1 ''i1'' ?s)"
  have h0: "distinct [''a'']" by simp
  have h1: "db ?s = Some ?rows" by (simp add: sampleStore_def)
  have h2: "\<not> dbFails (sampleEnv 1000)" by (simp add: sampleEnv_def)
  have c: "records ?s1 =
      [(sampleRow ''a'' 10 RECOVERING)\<lparr>recovery_instance := Some ''i1'',
                                        recovery_started_at := Some 1000\<rparr>,
       sampleRow ''b'' 20 PENDING]"
    by (simp add: getAndMarkPendingCars_def sampleStore_def sampleEnv_def sampleRow_def
        selected_cars_def sqlLimit_def claimHit_def claimRow_def Let_def records_def)
  have ev: "records (snd (markCarsAsPending None [''a''] ?s1))
       = [(sampleRow ''a'' 10 PENDING)\<lparr>retry_count := 1, recovery_instance := Some ''i1'',
                                         recovery_started_at := Some 1000\<rparr>,
          sampleRow ''b'' 20 PENDING]"
    by (simp only: markCarsAsPending_records c)
       (simp add: executed_def updateWhereId_def pendingRow_def sampleRow_def)
  have ne: "records ?s1 ! 0 \<noteq> ?rows ! 0 \<and> id_col (?rows ! 0) \<in> set [''a'']"
    by (simp only: c) (simp add: sampleRow_def)
  have len: "0 < length ?rows" by simp
  from markCarsAsPending_effect [of "[''a'']" ?s ?rows "sampleEnv 1000" 1 "''i1''" None "[]" sampleCar]
    h1 h2 ne len
  have "recovery_instance (records (snd (markCarsAsPending None [''a''] ?s1)) ! 0) = Some ''i1''"
    by blast
  with h0 h1 h2 ev show ?thesis by (intro conjI) assumption+
qed

theorem markCarsAsPending_twice_counterexample:
  "[''a'', ''a''] \<noteq> []
   \<and> retry_count (hd (records (sampleStore
        [(sampleRow ''a'' 10 RECOVERING)\<lparr>recovery_instance := Some ''i1'',
                                          recovery_started_at := Some 1000\<rparr>]))) = 0
   \<and> retry_count (hd (records (snd (markCarsAsPending None [''a'', ''a''] (sampleStore
        [(sampleRow ''a'' 10 RECOVERING)\<lparr>recovery_instance := Some ''i1'',
                                          recovery_started_at := Some 1000\<rparr>]))))) = 2"
  by (simp add: markCarsAsPending_def executed_def loopResult_def updateWhereId_def
      pendingRow_def sampleStore_def sampleRow_def records_def)

section \<open>Properties of a turn of the drain loop\<close>

lemma touchesOnly_refl: "touchesOnly I rows rows"
  by (simp add: touchesOnly_def)

lemma touchesOnly_trans:
  "touchesOnly I a b \<Longrightarrow> touchesOnly I b c \<Longrightarrow> touchesOnly I a c"
  by (auto simp: touchesOnly_def)

lemma touchesOnly_mono: "I \<subseteq> J \<Longrightarrow> touchesOnly I a b \<Longrightarrow> touchesOnly J a b"
  by (auto simp: touchesOnly_def)

lemma markPendingLoop_touches: "touchesOnly (set ids) rows (markPendingLoop ids rows)"
  by (simp add: touchesOnly_def markPendingLoop_row)

lemma markSentLoop_touches: "touchesOnly (set ids) rows (markSentLoop jobs i ids rows)"
  unfolding touchesOnly_def
proof (intro conjI allI impI)
  show "length (markSentLoop jobs i ids rows) = length rows" by simp
next
  fix n assume n: "n < length rows"
  show "id_col (markSentLoop jobs i ids rows ! n) = id_col (rows ! n)"
  proof (cases "id_col (rows ! n) \<in> set ids")
    case True
    from markSentLoop_listed [OF n True, of jobs i] show ?thesis by auto
  next
    case False
    from markSentLoop_other [OF n False, of jobs i] show ?thesis by simp
  qed
next
  fix n assume "n < length rows" and "id_col (rows ! n) \<notin> set ids"
  then show "markSentLoop jobs i ids rows ! n = rows ! n" by (rule markSentLoop_other)
qed

lemma executed_subset: "set (executed f ids) \<subseteq> set ids"
  by (auto simp: executed_def split: option.splits dest: in_set_takeD)

lemma executed_all: "loopResult f ids = Inr u \<Longrightarrow> executed f ids = ids"
  by (auto simp: loopResult_def executed_def split: option.splits if_splits)

lemma markCarsAsSent_ok:
  "fst (markCarsAsSent f ids jobs s) = Inr u \<Longrightarrow>
     records (snd (markCarsAsSent f ids jobs s)) = markSentLoop jobs 0 ids (records s)"
  by (cases "db s"; cases "ids = []")
     (auto simp: markCarsAsSent_def records_def executed_all)

lemma markCarsAsPending_ok:
  "fst (markCarsAsPending f ids s) = Inr u \<Longrightarrow>
     records (snd (markCarsAsPending f ids s)) = markPendingLoop ids (records s)"
  by (cases "db s"; cases "ids = []")
     (auto simp: markCarsAsPending_def records_def executed_all)

lemma isRedisAvailable_store [simp]:
  "sqliteManager (snd (isRedisAvailable p q a)) = sqliteManager a"
  by (simp add: isRedisAvailable_def testRedisWrite_def Let_def)

lemma take_ex_nil: "\<exists>k. [] = take k xs"
  by (rule exI [of _ 0]) simp

lemma take_ex_all: "\<exists>k. xs = take k xs"
  by (rule exI [of _ "length xs"]) simp

lemma executed_take: "\<exists>k. executed f ids = take k ids"
  by (cases f) (auto simp: executed_def take_ex_all)

lemma revertAll_store:
  "records (sqliteManager (fst (snd (revertAll ending env cars a tot))))
     = markPendingLoop (executed (revertFailAt env) (map id_col cars)) (records (sqliteManager a))"
proof -
  obtain r s' where m: "markCarsAsPending (revertFailAt env) (map id_col cars) (sqliteManager a) = (r, s')"
    by (cases "markCarsAsPending (revertFailAt env) (map id_col cars) (sqliteManager a)")
  with markCarsAsPending_records [of "revertFailAt env" "map id_col cars" "sqliteManager a"]
  have "records s' = markPendingLoop (executed (revertFailAt env) (map id_col cars))
                       (records (sqliteManager a))"
    by simp
  then show ?thesis by (cases r) (simp_all add: revertAll_def Let_def m)
qed

text \<open>
  \<open>revertAll\<close> either ends as its caller says, with every claimed id marked pending, or
  throws the error of its \<open>markCarsAsPending\<close>.
\<close>

lemma revertAll_end:
  "(fst (revertAll ending env cars a tot) = ending
      \<and> records (sqliteManager (fst (snd (revertAll ending env cars a tot))))
          = markPendingLoop (map id_col cars) (records (sqliteManager a)))
   \<or> (\<exists>e. fst (revertAll ending env cars a tot) = Throw e)"
proof -
  obtain r s' where m: "markCarsAsPending (revertFailAt env) (map id_col cars) (sqliteManager a) = (r, s')"
    by (cases "markCarsAsPending (revertFailAt env) (map id_col cars) (sqliteManager a)")
  show ?thesis
  proof (cases r)
    case (Inl e)
    with m show ?thesis by (simp add: revertAll_def Let_def)
  next
    case (Inr u)
    with m markCarsAsPending_ok [of "revertFailAt env" "map id_col cars" "sqliteManager a" u]
    show ?thesis by (simp add: revertAll_def Let_def)
  qed
qed

lemma addAll_ids:
  "set (map fst (fst (addAll outcome k cars))) \<union> set (snd (addAll outcome k cars))
     = set (map id_col cars)"
proof (induction cars arbitrary: k)
  case Nil
  then show ?case by simp
next
  case (Cons car cars)
  obtain succ failed where a: "addAll outcome (Suc k) cars = (succ, failed)"
    by (cases "addAll outcome (Suc k) cars")
  with Cons.IH [of "Suc k"] have "set (map fst succ) \<union> set failed = set (map id_col cars)"
    by simp
  then show ?case by (cases "outcome k") (auto simp: a)
qed

lemma addAll_distinct:
  "distinct (map id_col cars) \<Longrightarrow>
     distinct (snd (addAll outcome k cars))
     \<and> set (map fst (fst (addAll outcome k cars))) \<inter> set (snd (addAll outcome k cars)) = {}"
proof (induction cars arbitrary: k)
  case Nil
  then show ?case by simp
next
  case (Cons car cars)
  from Cons.prems have d: "distinct (map id_col cars)" and n: "id_col car \<notin> set (map id_col cars)"
    by simp_all
  from n addAll_ids [of outcome "Suc k" cars]
  have n1: "id_col car \<notin> set (map fst (fst (addAll outcome (Suc k) cars)))"
    and n2: "id_col car \<notin> set (snd (addAll outcome (Suc k) cars))"
    by blast+
  obtain succ failed where a: "addAll outcome (Suc k) cars = (succ, failed)"
    by (cases "addAll outcome (Suc k) cars")
  with Cons.IH [OF d, of "Suc k"] n1 n2 have "distinct failed"
    "set (map fst succ) \<inter> set failed = {}" "id_col car \<notin> set (map fst succ)"
    "id_col car \<notin> set failed"
    by simp_all
  then show ?case by (cases "outcome k") (auto simp: a)
qed

text \<open>
  The table after a turn of the drain loop: the claimed table \<open>rows1\<close>, then the
  executed statements of \<open>markCarsAsSent\<close> (ids \<open>A\<close>), of the \<open>markCarsAsPending\<close> for the
  failed cars (ids \<open>B\<close>) and of the \<open>markCarsAsPending\<close> that reverts the batch (ids \<open>C\<close>).
\<close>

lemma drainTurn_store:
  assumes init: "db (sqliteManager a) = Some rows" and ok: "\<not> dbFails (claimEnv env)"
    and sel: "sel = selected_cars (chunkSize (recoveryManager a)) rows"
    and cl: "claimed = map (claimRow (rm_instanceId (recoveryManager a)) (now (claimEnv env)))
                         (filter (claimHit sel) rows)"
    and r1: "rows1 = map (\<lambda>r. if claimHit sel r
                               then claimRow (rm_instanceId (recoveryManager a)) (now (claimEnv env)) r
                               else r) rows"
    and ad: "addAll (addOutcome env) 0 claimed = (succ, failed)"
  shows "\<exists>A B C. set A \<subseteq> set (map fst succ)
           \<and> (\<exists>k. B = take k failed) \<and> (\<exists>k. C = take k (map id_col claimed))
           \<and> records (sqliteManager (fst (snd (drainTurn env a totals))))
               = markPendingLoop C (markPendingLoop B (markSentLoop (map snd succ) 0 A rows1))
           \<and> (fst (drainTurn env a totals) = Continue \<longrightarrow>
                 A = map fst succ \<and> B = failed \<and> C = [])
           \<and> (fst (drainTurn env a totals) = Break \<longrightarrow>
                 A = [] \<and> B = [] \<and> C = map id_col claimed)
           \<and> (fst (drainTurn env a totals) = Caught \<longrightarrow> C = map id_col claimed)"
proof -
  let ?s' = "(sqliteManager a)\<lparr>db := Some rows1\<rparr>"
  let ?a1 = "a\<lparr>sqliteManager := ?s'\<rparr>"
  let ?ids = "map id_col claimed"
  let ?rf = "executed (revertFailAt env) ?ids"
  let ?D = "drainTurn env a totals"
  let ?R = "records (sqliteManager (fst (snd ?D)))"
  have fin: "\<And>A B C. set A \<subseteq> set (map fst succ) \<Longrightarrow> \<exists>k. B = take k failed
      \<Longrightarrow> \<exists>k. C = take k ?ids
      \<Longrightarrow> ?R = markPendingLoop C (markPendingLoop B (markSentLoop (map snd succ) 0 A rows1))
      \<Longrightarrow> (fst ?D = Continue \<longrightarrow> A = map fst succ \<and> B = failed \<and> C = [])
      \<Longrightarrow> (fst ?D = Break \<longrightarrow> A = [] \<and> B = [] \<and> C = ?ids)
      \<Longrightarrow> (fst ?D = Caught \<longrightarrow> C = ?ids)
      \<Longrightarrow> ?thesis"
    by blast
  have c: "getAndMarkPendingCars (claimEnv env) (chunkSize (recoveryManager a))
             (rm_instanceId (recoveryManager a)) (sqliteManager a) = (Inr claimed, ?s')"
    using init ok by (simp add: claim_rows sel cl r1)
  have rec': "records ?s' = rows1" by (simp add: records_def)
  have rft: "\<exists>k. ?rf = take k ?ids" by (rule executed_take)
  txt \<open>A turn that ends in \<open>revertAll\<close>, after \<open>A\<close> and \<open>B\<close> have been executed.\<close>
  have rev: "?thesis"
    if d: "?D = revertAll ending env claimed a' tot"
      and ra: "records (sqliteManager a')
                 = markPendingLoop B (markSentLoop (map snd succ) 0 A rows1)"
      and A: "set A \<subseteq> set (map fst succ)" and B: "\<exists>k. B = take k failed"
      and e: "ending = Caught \<or> (ending = Break \<and> A = [] \<and> B = [])"
    for ending a' tot A B
  proof -
    from revertAll_end [of ending env claimed a' tot]
    show ?thesis
    proof
      assume f: "fst (revertAll ending env claimed a' tot) = ending
        \<and> records (sqliteManager (fst (snd (revertAll ending env claimed a' tot))))
            = markPendingLoop ?ids (records (sqliteManager a'))"
      then have R: "?R = markPendingLoop ?ids
                           (markPendingLoop B (markSentLoop (map snd succ) 0 A rows1))"
        by (simp add: d ra)
      from f have en: "fst ?D = ending" by (simp add: d)
      from e en have i1: "fst ?D = Continue \<longrightarrow> A = map fst succ \<and> B = failed \<and> ?ids = []"
        by auto
      from e en have i2: "fst ?D = Break \<longrightarrow> A = [] \<and> B = [] \<and> ?ids = ?ids" by auto
      have i3: "fst ?D = Caught \<longrightarrow> ?ids = ?ids" by simp
      from fin [OF A B take_ex_all R i1 i2 i3] show ?thesis .
    next
      assume "\<exists>e. fst (revertAll ending env claimed a' tot) = Throw e"
      then obtain er where t: "fst ?D = Throw er" by (auto simp: d)
      have R: "?R = markPendingLoop ?rf
                           (markPendingLoop B (markSentLoop (map snd succ) 0 A rows1))"
        by (simp add: d revertAll_store ra)
      from t have i1: "fst ?D = Continue \<longrightarrow> A = map fst succ \<and> B = failed \<and> ?rf = []"
        and i2: "fst ?D = Break \<longrightarrow> A = [] \<and> B = [] \<and> ?rf = ?ids"
        and i3: "fst ?D = Caught \<longrightarrow> ?rf = ?ids"
        by simp_all
      from fin [OF A B rft R i1 i2 i3] show ?thesis .
    qed
  qed
  show ?thesis
  proof (cases "claimed = []")
    case True
    then have d: "?D = (Break, ?a1, totals)"
      by (simp add: drainTurn_def c)
    have e: "set [] \<subseteq> set (map fst succ)" by simp
    from d have R: "?R = markPendingLoop [] (markPendingLoop [] (markSentLoop (map snd succ) 0 [] rows1))"
      by (simp add: rec')
    from d have i1: "fst ?D = Continue \<longrightarrow> [] = map fst succ \<and> [] = failed \<and> [] = ([]::string list)"
      by simp
    from True have i2: "fst ?D = Break \<longrightarrow> [] = ([]::string list) \<and> [] = ([]::string list) \<and> [] = ?ids"
      by simp
    from d have i3: "fst ?D = Caught \<longrightarrow> [] = ?ids" by simp
    from fin [OF e take_ex_nil take_ex_nil R i1 i2 i3] show ?thesis .
  next
    case ne: False
    obtain av a2 where ia: "isRedisAvailable (pingOutcome env) (probeOutcome env) ?a1 = (av, a2)"
      by (cases "isRedisAvailable (pingOutcome env) (probeOutcome env) ?a1")
    from isRedisAvailable_store [of "pingOutcome env" "probeOutcome env" ?a1] ia
    have s2: "sqliteManager a2 = ?s'" by simp
    show ?thesis
    proof (cases av)
      case False
      with ne ia have d: "?D = revertAll Break env claimed a2 totals"
        by (simp add: drainTurn_def c)
      have ra: "records (sqliteManager a2)
                  = markPendingLoop [] (markSentLoop (map snd succ) 0 [] rows1)"
        by (simp add: s2 rec')
      have e: "set [] \<subseteq> set (map fst succ)" by simp
      from rev [OF d ra e take_ex_nil] show ?thesis by simp
    next
      case True
      let ?a3 = "a2\<lparr>remoteCalls := remoteCalls a2 @ map (\<lambda>car. AddCar (carData car)) claimed\<rparr>"
      let ?A1 = "if succ \<noteq> [] then executed (sentFailAt env) (map fst succ) else []"
      obtain q1 s1 where ms0:
        "(if succ \<noteq> []
          then markCarsAsSent (sentFailAt env) (map fst succ) (map snd succ) (sqliteManager ?a3)
          else (Inr (), sqliteManager ?a3)) = (q1, s1)"
        by (cases "if succ \<noteq> []
          then markCarsAsSent (sentFailAt env) (map fst succ) (map snd succ) (sqliteManager ?a3)
          else (Inr (), sqliteManager ?a3)")
      then have ms:
        "(if succ \<noteq> [] then markCarsAsSent (sentFailAt env) (map fst succ) (map snd succ) ?s'
          else (Inr (), ?s')) = (q1, s1)"
        by (cases "succ = []") (simp_all add: s2)
      have rec1: "records s1 = markSentLoop (map snd succ) 0 ?A1 rows1"
      proof (cases "succ = []")
        case True
        with ms show ?thesis by (auto simp: records_def)
      next
        case False
        with ms markCarsAsSent_records [of "sentFailAt env" "map fst succ" "map snd succ" ?s']
        show ?thesis by (simp add: rec')
      qed
      have A1s: "set ?A1 \<subseteq> set (map fst succ)"
        using executed_subset [of "sentFailAt env" "map fst succ"] by (cases "succ = []") simp_all
      show ?thesis
      proof (cases q1)
        case (Inl e)
        with ne True
        have d: "?D = revertAll Caught env claimed (?a3\<lparr>sqliteManager := s1\<rparr>) totals"
          by (simp add: drainTurn_def c Let_def ia ad ms0 split del: if_split)
        have ra: "records (sqliteManager (?a3\<lparr>sqliteManager := s1\<rparr>))
                    = markPendingLoop [] (markSentLoop (map snd succ) 0 ?A1 rows1)"
          by (simp add: rec1)
        from rev [OF d ra A1s take_ex_nil] show ?thesis by simp
      next
        case (Inr u)
        have full1: "records s1 = markSentLoop (map snd succ) 0 (map fst succ) rows1"
        proof (cases "succ = []")
          case True
          with ms show ?thesis by (auto simp: records_def)
        next
          case False
          with ms Inr markCarsAsSent_ok [of "sentFailAt env" "map fst succ" "map snd succ" ?s' u]
          show ?thesis by (simp add: rec')
        qed
        let ?B1 = "if failed \<noteq> [] then executed (pendingFailAt env) failed else []"
        obtain q2 s2' where mp:
          "(if failed \<noteq> [] then markCarsAsPending (pendingFailAt env) failed s1
            else (Inr (), s1)) = (q2, s2')"
          by (cases "if failed \<noteq> [] then markCarsAsPending (pendingFailAt env) failed s1
            else (Inr (), s1)")
        have rec2: "records s2' = markPendingLoop ?B1 (records s1)"
        proof (cases "failed = []")
          case True
          with mp show ?thesis by auto
        next
          case False
          with mp markCarsAsPending_records [of "pendingFailAt env" failed s1]
          show ?thesis by simp
        qed
        have B1t: "\<exists>k. ?B1 = take k failed"
          using executed_take [of "pendingFailAt env" failed] take_ex_nil [of failed]
          by (cases "failed = []") simp_all
        have all: "set (map fst succ) \<subseteq> set (map fst succ)" by simp
        show ?thesis
        proof (cases q2)
          case (Inl e)
          with ne True Inr
          have d: "?D =
              revertAll Caught env claimed (?a3\<lparr>sqliteManager := s2'\<rparr>)
                (fst totals + int (length succ), snd totals)"
            by (simp add: drainTurn_def c Let_def ia ad ms0 mp split del: if_split)
          have ra: "records (sqliteManager (?a3\<lparr>sqliteManager := s2'\<rparr>))
                    = markPendingLoop ?B1 (markSentLoop (map snd succ) 0 (map fst succ) rows1)"
            by (simp add: rec2 full1)
          from rev [OF d ra all B1t] show ?thesis by simp
        next
          case inr2: (Inr u2)
          with ne True Inr
          have d: "?D =
              (Continue, ?a3\<lparr>sqliteManager := s2'\<rparr>, fst totals + int (length succ),
               snd totals + int (length failed))"
            by (simp add: drainTurn_def c Let_def ia ad ms0 mp split del: if_split)
          have full2: "records s2' = markPendingLoop failed (records s1)"
          proof (cases "failed = []")
            case True
            with mp show ?thesis by auto
          next
            case False
            with mp inr2 markCarsAsPending_ok [of "pendingFailAt env" failed s1 u2]
            show ?thesis by simp
          qed
          have R: "?R = markPendingLoop [] (markPendingLoop failed
                     (markSentLoop (map snd succ) 0 (map fst succ) rows1))"
            by (simp add: d full2 full1)
          from d have i1: "fst ?D = Continue \<longrightarrow>
              map fst succ = map fst succ \<and> failed = failed \<and> [] = ([]::string list)"
            and i2: "fst ?D = Break \<longrightarrow> map fst succ = [] \<and> failed = [] \<and> [] = ?ids"
            and i3: "fst ?D = Caught \<longrightarrow> [] = ?ids"
            by simp_all
          from fin [OF all take_ex_all take_ex_nil R i1 i2 i3] show ?thesis .
        qed
      qed
    qed
  qed
qed

lemma claimed_id_hit:
  assumes pk: "distinct (map id_col rows)" and i: "i < length rows"
    and m: "id_col (rows ! i) \<in> set (map id_col (map (claimRow inst t) (filter (claimHit sel) rows)))"
  shows "claimHit sel (rows ! i)"
proof -
  from m obtain r where r: "r \<in> set rows" "claimHit sel r" "id_col r = id_col (rows ! i)"
    by auto
  from i have "rows ! i \<in> set rows" by simp
  with pk r have "r = rows ! i" by (meson distinct_map inj_onD)
  with r show ?thesis by simp
qed

lemma hit_id_claimed:
  "i < length rows \<Longrightarrow> claimHit sel (rows ! i) \<Longrightarrow>
     id_col (rows ! i) \<in> set (map id_col (map (claimRow inst t) (filter (claimHit sel) rows)))"
proof -
  assume i: "i < length rows" and h: "claimHit sel (rows ! i)"
  then have "rows ! i \<in> set (filter (claimHit sel) rows)" by simp
  then have "id_col (claimRow inst t (rows ! i))
      \<in> set (map id_col (map (claimRow inst t) (filter (claimHit sel) rows)))"
    by (simp only: set_map) (blast intro: imageI)
  then show ?thesis by simp
qed

lemma drainTurn_failed_claim:
  "dbFails (claimEnv env) \<or> db (sqliteManager a) = None \<Longrightarrow>
     records (sqliteManager (fst (snd (drainTurn env a totals)))) = records (sqliteManager a)
     \<and> (\<exists>e. fst (drainTurn env a totals) = Throw e)"
  by (cases "db (sqliteManager a)")
     (auto simp: drainTurn_def getAndMarkPendingCars_def records_def)

lemma markPendingLoop_twice_row:
  assumes "i < length M" and "distinct B" and "distinct C"
  shows "markPendingLoop C (markPendingLoop B M) ! i =
     (if id_col (M ! i) \<in> set B \<or> id_col (M ! i) \<in> set C
      then (M ! i)\<lparr>status := PENDING,
             retry_count := retry_count (M ! i)
                + (if id_col (M ! i) \<in> set B then 1 else 0)
                + (if id_col (M ! i) \<in> set C then 1 else 0)\<rparr>
      else M ! i)"
  using assms by (simp add: markPendingLoop_row count_list_distinct)

text \<open>
  A row that the turn claimed, after the turn: the claimed row, with the status and job
  id that \<open>markCarsAsSent\<close> left (\<open>st\<close>, \<open>job\<close>), marked pending \<open>nb + nc\<close> times.
\<close>

lemma drainTurn_hit_row:
  assumes i: "i < length rows1" and e: "rows1 ! i = claimRow inst t r"
    and dB: "distinct B" and dC: "distinct C"
  shows "\<exists>st job nb nc.
      markPendingLoop C (markPendingLoop B (markSentLoop jobs 0 A rows1)) ! i
        = r\<lparr>status := (if nb + nc = 0 then st else PENDING),
             retry_count := retry_count r + nb + nc,
             recovery_instance := Some inst, recovery_started_at := Some t,
             redis_job_id := job\<rparr>
      \<and> ((id_col r \<in> set A \<and> st = SENT) \<or> (id_col r \<notin> set A \<and> st = RECOVERING \<and> job = redis_job_id r))
      \<and> nb = (if id_col r \<in> set B then 1 else 0)
      \<and> nc = (if id_col r \<in> set C then 1 else 0)"
proof -
  let ?M = "markSentLoop jobs 0 A rows1"
  have idr: "id_col (rows1 ! i) = id_col r" by (simp add: e claimRow_def)
  have lenM: "i < length ?M" using i by simp
  have "\<exists>st job. ?M ! i = r\<lparr>status := st, recovery_instance := Some inst,
                             recovery_started_at := Some t, redis_job_id := job\<rparr>
      \<and> ((id_col r \<in> set A \<and> st = SENT)
         \<or> (id_col r \<notin> set A \<and> st = RECOVERING \<and> job = redis_job_id r))"
  proof (cases "id_col r \<in> set A")
    case True
    with idr have "id_col (rows1 ! i) \<in> set A" by simp
    from markSentLoop_listed [OF i this, of jobs 0]
    obtain job where "?M ! i = (rows1 ! i)\<lparr>status := SENT, redis_job_id := job\<rparr>" by blast
    then have "?M ! i = r\<lparr>status := SENT, recovery_instance := Some inst,
                             recovery_started_at := Some t, redis_job_id := job\<rparr>"
      by (simp add: e claimRow_def)
    with True show ?thesis by blast
  next
    case False
    with idr have "id_col (rows1 ! i) \<notin> set A" by simp
    from markSentLoop_other [OF i this, of jobs 0]
    have "?M ! i = rows1 ! i" .
    then have "?M ! i = r\<lparr>status := RECOVERING, recovery_instance := Some inst,
                             recovery_started_at := Some t, redis_job_id := redis_job_id r\<rparr>"
      by (simp add: e claimRow_def)
    with False show ?thesis by blast
  qed
  then obtain st job where M: "?M ! i = r\<lparr>status := st, recovery_instance := Some inst,
                             recovery_started_at := Some t, redis_job_id := job\<rparr>"
    and sj: "(id_col r \<in> set A \<and> st = SENT)
         \<or> (id_col r \<notin> set A \<and> st = RECOVERING \<and> job = redis_job_id r)"
    by blast
  have "markPendingLoop C (markPendingLoop B ?M) ! i
        = r\<lparr>status := (if (if id_col r \<in> set B then 1 else 0)
                            + (if id_col r \<in> set C then 1 else (0::int)) = 0 then st else PENDING),
             retry_count := retry_count r + (if id_col r \<in> set B then 1 else 0)
                              + (if id_col r \<in> set C then 1 else 0),
             recovery_instance := Some inst, recovery_started_at := Some t,
             redis_job_id := job\<rparr>"
    by (simp add: markPendingLoop_twice_row [OF lenM dB dC] M)
  with sj show ?thesis by blast
qed

lemma drainTurn_rows:
  assumes init: "db (sqliteManager a) = Some rows" and pk: "distinct (map id_col rows)"
    and ok: "\<not> dbFails (claimEnv env)" and i: "i < length rows"
  shows "(status (rows ! i) \<noteq> PENDING \<longrightarrow>
            records (sqliteManager (fst (snd (drainTurn env a totals)))) ! i = rows ! i)
    \<and> (records (sqliteManager (fst (snd (drainTurn env a totals)))) ! i = rows ! i
       \<or> (status (rows ! i) = PENDING
          \<and> (\<exists>st k job.
                ((st = RECOVERING \<and> k = 0 \<and> job = redis_job_id (rows ! i))
                 \<or> (st = SENT \<and> k = 0) \<or> (st = PENDING \<and> (k = 1 \<or> k = 2)))
                \<and> records (sqliteManager (fst (snd (drainTurn env a totals)))) ! i
                    = (rows ! i)\<lparr>status := st,
                        retry_count := retry_count (rows ! i) + k,
                        recovery_instance := Some (rm_instanceId (recoveryManager a)),
                        recovery_started_at := Some (now (claimEnv env)),
                        redis_job_id := job\<rparr>)))
    \<and> (fst (drainTurn env a totals) = Continue \<longrightarrow>
          records (sqliteManager (fst (snd (drainTurn env a totals)))) ! i = rows ! i
          \<or> (status (rows ! i) = PENDING
             \<and> ((\<exists>job. records (sqliteManager (fst (snd (drainTurn env a totals)))) ! i
                        = (rows ! i)\<lparr>status := SENT,
                            recovery_instance := Some (rm_instanceId (recoveryManager a)),
                            recovery_started_at := Some (now (claimEnv env)),
                            redis_job_id := job\<rparr>)
                \<or> records (sqliteManager (fst (snd (drainTurn env a totals)))) ! i
                    = (rows ! i)\<lparr>status := PENDING,
                        retry_count := retry_count (rows ! i) + 1,
                        recovery_instance := Some (rm_instanceId (recoveryManager a)),
                        recovery_started_at := Some (now (claimEnv env))\<rparr>)))
    \<and> (fst (drainTurn env a totals) = Break \<longrightarrow>
          records (sqliteManager (fst (snd (drainTurn env a totals)))) ! i = rows ! i
          \<or> (status (rows ! i) = PENDING
             \<and> records (sqliteManager (fst (snd (drainTurn env a totals)))) ! i
                    = (rows ! i)\<lparr>status := PENDING,
                        retry_count := retry_count (rows ! i) + 1,
                        recovery_instance := Some (rm_instanceId (recoveryManager a)),
                        recovery_started_at := Some (now (claimEnv env))\<rparr>))
    \<and> (fst (drainTurn env a totals) = Caught \<longrightarrow>
          records (sqliteManager (fst (snd (drainTurn env a totals)))) ! i = rows ! i
          \<or> (status (rows ! i) = PENDING
             \<and> (\<exists>k job. (k = 1 \<or> k = 2)
                  \<and> records (sqliteManager (fst (snd (drainTurn env a totals)))) ! i
                    = (rows ! i)\<lparr>status := PENDING,
                        retry_count := retry_count (rows ! i) + k,
                        recovery_instance := Some (rm_instanceId (recoveryManager a)),
                        recovery_started_at := Some (now (claimEnv env)),
                        redis_job_id := job\<rparr>)))"
proof -
  let ?inst = "rm_instanceId (recoveryManager a)"
  let ?t = "now (claimEnv env)"
  let ?D = "drainTurn env a totals"
  let ?R = "records (sqliteManager (fst (snd (drainTurn env a totals))))"
  define r where "r = rows ! i"
  define sel where "sel = selected_cars (chunkSize (recoveryManager a)) rows"
  define claimed where "claimed = map (claimRow ?inst ?t) (filter (claimHit sel) rows)"
  define rows1 where "rows1 = map (\<lambda>r. if claimHit sel r then claimRow ?inst ?t r else r) rows"
  obtain succ failed where ad: "addAll (addOutcome env) 0 claimed = (succ, failed)"
    by (cases "addAll (addOutcome env) 0 claimed")
  let ?I = "set (map id_col claimed)"
  from drainTurn_store [OF init ok sel_def claimed_def rows1_def ad, of totals]
  obtain A B C where A: "set A \<subseteq> set (map fst succ)"
    and Bt: "\<exists>k. B = take k failed" and Ct: "\<exists>k. C = take k (map id_col claimed)"
    and R: "?R = markPendingLoop C (markPendingLoop B (markSentLoop (map snd succ) 0 A rows1))"
    and cont: "fst ?D = Continue \<longrightarrow> A = map fst succ \<and> B = failed \<and> C = []"
    and brk: "fst ?D = Break \<longrightarrow> A = [] \<and> B = [] \<and> C = map id_col claimed"
    and cgt: "fst ?D = Caught \<longrightarrow> C = map id_col claimed"
    by blast
  from Bt have B: "set B \<subseteq> set failed" by (auto dest: in_set_takeD)
  from Ct have C: "set C \<subseteq> ?I" by (auto dest: in_set_takeD)
  from addAll_ids [of "addOutcome env" 0 claimed] ad
  have parts: "set (map fst succ) \<union> set failed = ?I" by simp
  from pk have dI: "distinct (map id_col claimed)"
    by (simp add: claimed_def distinct_map_filter comp_def)
  from addAll_distinct [OF dI, of "addOutcome env" 0] ad
  have df: "distinct failed" and dj: "set (map fst succ) \<inter> set failed = {}" by simp_all
  from Bt df have dB: "distinct B" by auto
  from Ct dI have dC: "distinct C" by auto
  have i1: "i < length rows1" using i by (simp add: rows1_def)
  have t1: "touchesOnly ?I rows1 (markSentLoop (map snd succ) 0 A rows1)"
    using A parts by (blast intro: touchesOnly_mono [OF _ markSentLoop_touches])
  have t2: "touchesOnly ?I (markSentLoop (map snd succ) 0 A rows1)
              (markPendingLoop B (markSentLoop (map snd succ) 0 A rows1))"
    using B parts by (blast intro: touchesOnly_mono [OF _ markPendingLoop_touches])
  have t3: "touchesOnly ?I (markPendingLoop B (markSentLoop (map snd succ) 0 A rows1)) ?R"
    unfolding R using C by (blast intro: touchesOnly_mono [OF _ markPendingLoop_touches])
  from touchesOnly_trans [OF touchesOnly_trans [OF t1 t2] t3]
  have t: "touchesOnly ?I rows1 ?R" .
  have unhit: "\<not> claimHit sel (rows ! i) \<Longrightarrow> ?R ! i = r"
  proof -
    assume nh: "\<not> claimHit sel (rows ! i)"
    with claimed_id_hit [OF pk i, of ?inst ?t sel]
    have "id_col (rows ! i) \<notin> ?I" by (auto simp: claimed_def)
    moreover from nh i have e: "rows1 ! i = rows ! i" by (simp add: rows1_def)
    ultimately have "?R ! i = rows1 ! i" using t i1 by (simp add: touchesOnly_def)
    with e show ?thesis by (simp add: r_def)
  qed
  have first: "status r \<noteq> PENDING \<longrightarrow> ?R ! i = r"
    using unhit by (auto simp: claimHit_def r_def)
  have rest: "(?R ! i = r
       \<or> (status r = PENDING
          \<and> (\<exists>st k job.
                ((st = RECOVERING \<and> k = 0 \<and> job = redis_job_id r)
                 \<or> (st = SENT \<and> k = 0) \<or> (st = PENDING \<and> (k = 1 \<or> k = 2)))
                \<and> ?R ! i = r\<lparr>status := st, retry_count := retry_count r + k,
                        recovery_instance := Some ?inst, recovery_started_at := Some ?t,
                        redis_job_id := job\<rparr>)))
    \<and> (fst ?D = Continue \<longrightarrow>
          ?R ! i = r
          \<or> (status r = PENDING
             \<and> ((\<exists>job. ?R ! i = r\<lparr>status := SENT, recovery_instance := Some ?inst,
                            recovery_started_at := Some ?t, redis_job_id := job\<rparr>)
                \<or> ?R ! i = r\<lparr>status := PENDING, retry_count := retry_count r + 1,
                        recovery_instance := Some ?inst, recovery_started_at := Some ?t\<rparr>)))
    \<and> (fst ?D = Break \<longrightarrow>
          ?R ! i = r
          \<or> (status r = PENDING
             \<and> ?R ! i = r\<lparr>status := PENDING, retry_count := retry_count r + 1,
                        recovery_instance := Some ?inst, recovery_started_at := Some ?t\<rparr>))
    \<and> (fst ?D = Caught \<longrightarrow>
          ?R ! i = r
          \<or> (status r = PENDING
             \<and> (\<exists>k job. (k = 1 \<or> k = 2)
                  \<and> ?R ! i = r\<lparr>status := PENDING, retry_count := retry_count r + k,
                        recovery_instance := Some ?inst, recovery_started_at := Some ?t,
                        redis_job_id := job\<rparr>)))"
  proof (cases "claimHit sel (rows ! i)")
    case False
    then show ?thesis using unhit by simp
  next
    case True
    then have p: "status r = PENDING" by (simp add: claimHit_def r_def)
    from True i have e: "rows1 ! i = claimRow ?inst ?t r" by (simp add: rows1_def r_def)
    from hit_id_claimed [OF i True, of ?inst ?t] have inI: "id_col r \<in> ?I"
      by (simp add: claimed_def r_def)
    from drainTurn_hit_row [OF i1 e dB dC, of "map snd succ" A]
    obtain st job nb nc where
      Ri: "?R ! i = r\<lparr>status := (if nb + nc = 0 then st else PENDING),
             retry_count := retry_count r + nb + nc,
             recovery_instance := Some ?inst, recovery_started_at := Some ?t,
             redis_job_id := job\<rparr>"
      and sj: "(id_col r \<in> set A \<and> st = SENT)
                 \<or> (id_col r \<notin> set A \<and> st = RECOVERING \<and> job = redis_job_id r)"
      and nb: "nb = (if id_col r \<in> set B then 1 else 0)"
      and nc: "nc = (if id_col r \<in> set C then 1 else 0)"
      unfolding R by blast
    have gen: "\<exists>st k job.
                ((st = RECOVERING \<and> k = 0 \<and> job = redis_job_id r)
                 \<or> (st = SENT \<and> k = 0) \<or> (st = PENDING \<and> (k = 1 \<or> k = 2)))
                \<and> ?R ! i = r\<lparr>status := st, retry_count := retry_count r + k,
                        recovery_instance := Some ?inst, recovery_started_at := Some ?t,
                        redis_job_id := job\<rparr>"
    proof (intro exI conjI)
      show "?R ! i = r\<lparr>status := (if nb + nc = 0 then st else PENDING),
                        retry_count := retry_count r + (nb + nc),
                        recovery_instance := Some ?inst, recovery_started_at := Some ?t,
                        redis_job_id := job\<rparr>"
        by (simp add: Ri)
      show "((if nb + nc = 0 then st else PENDING) = RECOVERING \<and> nb + nc = 0 \<and> job = redis_job_id r)
            \<or> ((if nb + nc = 0 then st else PENDING) = SENT \<and> nb + nc = 0)
            \<or> ((if nb + nc = 0 then st else PENDING) = PENDING \<and> (nb + nc = 1 \<or> nb + nc = 2))"
        using sj nb nc by auto
    qed
    have c1: "?R ! i = r
          \<or> (status r = PENDING
             \<and> ((\<exists>job. ?R ! i = r\<lparr>status := SENT, recovery_instance := Some ?inst,
                            recovery_started_at := Some ?t, redis_job_id := job\<rparr>)
                \<or> ?R ! i = r\<lparr>status := PENDING, retry_count := retry_count r + 1,
                        recovery_instance := Some ?inst, recovery_started_at := Some ?t\<rparr>))"
      if co: "fst ?D = Continue"
    proof (cases "id_col r \<in> set (map fst succ)")
      case s: True
      with dj have "id_col r \<notin> set failed" by blast
      with co cont s sj nb nc have "nb = 0" "nc = 0" "st = SENT" by auto
      then have "?R ! i = r\<lparr>status := SENT, recovery_instance := Some ?inst,
                            recovery_started_at := Some ?t, redis_job_id := job\<rparr>"
        by (simp add: Ri)
      with p show ?thesis by blast
    next
      case ns: False
      with inI parts have "id_col r \<in> set failed" by blast
      with co cont ns sj nb nc have "nb = 1" "nc = 0" "job = redis_job_id r" by auto
      then have "?R ! i = r\<lparr>status := PENDING, retry_count := retry_count r + 1,
                        recovery_instance := Some ?inst, recovery_started_at := Some ?t\<rparr>"
        by (simp add: Ri)
      with p show ?thesis by blast
    qed
    have c2: "?R ! i = r
          \<or> (status r = PENDING
             \<and> ?R ! i = r\<lparr>status := PENDING, retry_count := retry_count r + 1,
                        recovery_instance := Some ?inst, recovery_started_at := Some ?t\<rparr>)"
      if br: "fst ?D = Break"
    proof -
      from br brk inI sj nb nc have "nb = 0" "nc = 1" "job = redis_job_id r" by auto
      then have "?R ! i = r\<lparr>status := PENDING, retry_count := retry_count r + 1,
                        recovery_instance := Some ?inst, recovery_started_at := Some ?t\<rparr>"
        by (simp add: Ri)
      with p show ?thesis by blast
    qed
    have c3: "?R ! i = r
          \<or> (status r = PENDING
             \<and> (\<exists>k job. (k = 1 \<or> k = 2)
                  \<and> ?R ! i = r\<lparr>status := PENDING, retry_count := retry_count r + k,
                        recovery_instance := Some ?inst, recovery_started_at := Some ?t,
                        redis_job_id := job\<rparr>))"
      if ca: "fst ?D = Caught"
    proof -
      from ca cgt inI nc have n1: "nc = 1" by auto
      then have eq: "?R ! i = r\<lparr>status := PENDING, retry_count := retry_count r + (nb + 1),
                        recovery_instance := Some ?inst, recovery_started_at := Some ?t,
                        redis_job_id := job\<rparr>"
        using nb by (simp add: Ri)
      from nb have "nb + 1 = 1 \<or> nb + 1 = 2" by auto
      with eq have "\<exists>k job. (k = 1 \<or> k = 2)
                  \<and> ?R ! i = r\<lparr>status := PENDING, retry_count := retry_count r + k,
                        recovery_instance := Some ?inst, recovery_started_at := Some ?t,
                        redis_job_id := job\<rparr>"
        by blast
      with p show ?thesis by blast
    qed
    from p gen c1 c2 c3 show ?thesis by blast
  qed
  from first rest show ?thesis unfolding r_def by blast
qed

lemma claim_status:
  "length (records (snd (getAndMarkPendingCars env limit inst s))) = length (records s)
   \<and> (\<forall>i < length (records s).
         status (records (snd (getAndMarkPendingCars env limit inst s)) ! i) = status (records s ! i)
         \<or> (status (records s ! i) = PENDING
            \<and> status (records (snd (getAndMarkPendingCars env limit inst s)) ! i) = RECOVERING))"
proof (cases "db s")
  case None
  then show ?thesis by (simp add: getAndMarkPendingCars_def)
next
  case (Some rows)
  show ?thesis
  proof (cases "dbFails env")
    case True
    with Some show ?thesis by (simp add: getAndMarkPendingCars_def)
  next
    case False
    from Some have r: "records s = rows" by (simp add: records_def)
    show ?thesis
      by (simp add: claim_records [OF Some False] r claimHit_def claimRow_def)
  qed
qed

lemma cleanup_status:
  "length (records (snd (cleanupStaleRecoveries env maxAgeMs s))) = length (records s)
   \<and> (\<forall>i < length (records s).
         status (records (snd (cleanupStaleRecoveries env maxAgeMs s)) ! i) = status (records s ! i)
         \<or> (status (records s ! i) = RECOVERING
            \<and> status (records (snd (cleanupStaleRecoveries env maxAgeMs s)) ! i) = PENDING))"
proof (cases "db s")
  case None
  then show ?thesis by (simp add: cleanupStaleRecoveries_def)
next
  case (Some rows)
  show ?thesis
  proof (cases "dbFails env")
    case True
    with Some show ?thesis by (simp add: cleanupStaleRecoveries_def)
  next
    case False
    from Some have r: "records s = rows" by (simp add: records_def)
    have "records (snd (cleanupStaleRecoveries env maxAgeMs s))
        = map (\<lambda>r. if isStale (now env - maxAgeMs) r then staleRow r else r) rows"
      by (simp add: cleanup_rows [OF Some False] records_def)
    then show ?thesis by (simp add: r isStale_def staleRow_def)
  qed
qed

lemma markCarsAsSent_status:
  "\<forall>i < length (records s).
      (id_col (records s ! i) \<in> set (executed f carIds) \<longrightarrow>
         status (records (snd (markCarsAsSent f carIds jobs s)) ! i) = SENT)
      \<and> (id_col (records s ! i) \<notin> set (executed f carIds) \<longrightarrow>
         records (snd (markCarsAsSent f carIds jobs s)) ! i = records s ! i)"
proof (intro allI impI conjI)
  fix i assume i: "i < length (records s)" and m: "id_col (records s ! i) \<in> set (executed f carIds)"
  from markSentLoop_listed [OF i m, of jobs 0]
  show "status (records (snd (markCarsAsSent f carIds jobs s)) ! i) = SENT"
    by (auto simp: markCarsAsSent_records)
next
  fix i assume i: "i < length (records s)" and m: "id_col (records s ! i) \<notin> set (executed f carIds)"
  from markSentLoop_other [OF i m, of jobs 0]
  show "records (snd (markCarsAsSent f carIds jobs s)) ! i = records s ! i"
    by (simp add: markCarsAsSent_records)
qed

lemma markCarsAsPending_status:
  "\<forall>i < length (records s).
      (id_col (records s ! i) \<in> set (executed f carIds) \<longrightarrow>
         status (records (snd (markCarsAsPending f carIds s)) ! i) = PENDING)
      \<and> (id_col (records s ! i) \<notin> set (executed f carIds) \<longrightarrow>
         records (snd (markCarsAsPending f carIds s)) ! i = records s ! i)"
  by (simp add: markCarsAsPending_records markPendingLoop_row)

text \<open>
  C3 (as amended). \<open>saveCar\<close> and \<open>flushBuffer\<close> change no existing row and add only
  \<open>PENDING\<close> rows. \<open>getAndMarkPendingCars\<close> changes a status only from \<open>PENDING\<close> to
  \<open>RECOVERING\<close>, \<open>cleanupStaleRecoveries\<close> only from \<open>RECOVERING\<close> to \<open>PENDING\<close>.
  \<open>markCarsAsSent\<close> sets every row whose id is among the ids of its executed statements
  to \<open>SENT\<close>, \<open>markCarsAsPending\<close> sets it to \<open>PENDING\<close>, whatever the status was, and
  neither changes another row. For a turn of the drain loop on a table with unique ids:

  \<^item> on every path, a row that was not \<open>PENDING\<close> before the turn (so every \<open>SENT\<close> row) is
    unchanged after it;
  \<^item> on every path, also one that throws, a row is unchanged, or it was \<open>PENDING\<close>, carries
    the claim of the turn, and is \<open>RECOVERING\<close> or \<open>SENT\<close> with its \<open>retry_count\<close>, or
    \<open>PENDING\<close> with \<open>retry_count\<close> one or two higher; no other column but \<open>redis_job_id\<close>
    differs;
  \<^item> when the turn ends normally (\<open>Continue\<close>), a row is unchanged, or was \<open>PENDING\<close>, was
    claimed, and is now \<open>SENT\<close>, or \<open>PENDING\<close> again with \<open>retry_count\<close> one higher;
  \<^item> when the turn leaves the loop without an exception of the batch (\<open>Break\<close>: nothing
    was claimed, or the remote is unavailable), a row is unchanged, or was \<open>PENDING\<close>, was
    claimed, and is \<open>PENDING\<close> again with \<open>retry_count\<close> one higher;
  \<^item> when the \<open>catch\<close> of the batch has run (\<open>Caught\<close>), a row is unchanged, or was
    \<open>PENDING\<close>, was claimed, and is \<open>PENDING\<close> again with \<open>retry_count\<close> one or two higher,
    whether or not \<open>markCarsAsSent\<close> had set it to \<open>SENT\<close> in the turn.
\<close>

theorem status_transitions:
  "(\<exists>new. records (snd (saveCar env car s)) = records s @ new
          \<and> (\<forall>r \<in> set new. status r = PENDING))
   \<and> (\<exists>new. records (snd (flushBuffer env s)) = records s @ new
          \<and> (\<forall>r \<in> set new. status r = PENDING))
   \<and> length (records (snd (getAndMarkPendingCars env limit inst s))) = length (records s)
   \<and> (\<forall>i < length (records s).
         status (records (snd (getAndMarkPendingCars env limit inst s)) ! i) = status (records s ! i)
         \<or> (status (records s ! i) = PENDING
            \<and> status (records (snd (getAndMarkPendingCars env limit inst s)) ! i) = RECOVERING))
   \<and> length (records (snd (cleanupStaleRecoveries env maxAgeMs s))) = length (records s)
   \<and> (\<forall>i < length (records s).
         status (records (snd (cleanupStaleRecoveries env maxAgeMs s)) ! i) = status (records s ! i)
         \<or> (status (records s ! i) = RECOVERING
            \<and> status (records (snd (cleanupStaleRecoveries env maxAgeMs s)) ! i) = PENDING))
   \<and> (\<forall>i < length (records s).
         (id_col (records s ! i) \<in> set (executed f carIds) \<longrightarrow>
            status (records (snd (markCarsAsSent f carIds jobs s)) ! i) = SENT)
         \<and> (id_col (records s ! i) \<notin> set (executed f carIds) \<longrightarrow>
            records (snd (markCarsAsSent f carIds jobs s)) ! i = records s ! i))
   \<and> (\<forall>i < length (records s).
         (id_col (records s ! i) \<in> set (executed f carIds) \<longrightarrow>
            status (records (snd (markCarsAsPending f carIds s)) ! i) = PENDING)
         \<and> (id_col (records s ! i) \<notin> set (executed f carIds) \<longrightarrow>
            records (snd (markCarsAsPending f carIds s)) ! i = records s ! i))
   \<and> (db (sqliteManager a) = Some rows \<and> distinct (map id_col rows) \<longrightarrow>
        (\<forall>i < length rows.
           (status (rows ! i) \<noteq> PENDING \<longrightarrow>
              records (sqliteManager (fst (snd (drainTurn denv a totals)))) ! i = rows ! i)
           \<and> (records (sqliteManager (fst (snd (drainTurn denv a totals)))) ! i = rows ! i
              \<or> (status (rows ! i) = PENDING
                 \<and> (\<exists>st k job.
                       ((st = RECOVERING \<and> k = 0 \<and> job = redis_job_id (rows ! i))
                        \<or> (st = SENT \<and> k = 0) \<or> (st = PENDING \<and> (k = 1 \<or> k = 2)))
                       \<and> records (sqliteManager (fst (snd (drainTurn denv a totals)))) ! i
                           = (rows ! i)\<lparr>status := st,
                               retry_count := retry_count (rows ! i) + k,
                               recovery_instance := Some (rm_instanceId (recoveryManager a)),
                               recovery_started_at := Some (now (claimEnv denv)),
                               redis_job_id := job\<rparr>)))
           \<and> (fst (drainTurn denv a totals) = Continue \<longrightarrow>
                records (sqliteManager (fst (snd (drainTurn denv a totals)))) ! i = rows ! i
                \<or> (status (rows ! i) = PENDING
                   \<and> ((\<exists>job. records (sqliteManager (fst (snd (drainTurn denv a totals)))) ! i
                              = (rows ! i)\<lparr>status := SENT,
                                  recovery_instance := Some (rm_instanceId (recoveryManager a)),
                                  recovery_started_at := Some (now (claimEnv denv)),
                                  redis_job_id := job\<rparr>)
                      \<or> records (sqliteManager (fst (snd (drainTurn denv a totals)))) ! i
                          = (rows ! i)\<lparr>status := PENDING,
                              retry_count := retry_count (rows ! i) + 1,
                              recovery_instance := Some (rm_instanceId (recoveryManager a)),
                              recovery_started_at := Some (now (claimEnv denv))\<rparr>)))
           \<and> (fst (drainTurn denv a totals) = Break \<longrightarrow>
                records (sqliteManager (fst (snd (drainTurn denv a totals)))) ! i = rows ! i
                \<or> (status (rows ! i) = PENDING
                   \<and> records (sqliteManager (fst (snd (drainTurn denv a totals)))) ! i
                          = (rows ! i)\<lparr>status := PENDING,
                              retry_count := retry_count (rows ! i) + 1,
                              recovery_instance := Some (rm_instanceId (recoveryManager a)),
                              recovery_started_at := Some (now (claimEnv denv))\<rparr>))
           \<and> (fst (drainTurn denv a totals) = Caught \<longrightarrow>
                records (sqliteManager (fst (snd (drainTurn denv a totals)))) ! i = rows ! i
                \<or> (status (rows ! i) = PENDING
                   \<and> (\<exists>k job. (k = 1 \<or> k = 2)
                        \<and> records (sqliteManager (fst (snd (drainTurn denv a totals)))) ! i
                          = (rows ! i)\<lparr>status := PENDING,
                              retry_count := retry_count (rows ! i) + k,
                              recovery_instance := Some (rm_instanceId (recoveryManager a)),
                              recovery_started_at := Some (now (claimEnv denv)),
                              redis_job_id := job\<rparr>)))))"
proof -
  have c1: "\<exists>new. records (snd (saveCar env car s)) = records s @ new
          \<and> (\<forall>r \<in> set new. status r = PENDING)"
    using saveCar_records [of env car s] by blast
  have c2: "\<exists>new. records (snd (flushBuffer env s)) = records s @ new
          \<and> (\<forall>r \<in> set new. status r = PENDING)"
    using flushBuffer_records [of env s] by blast
  note c3 = claim_status [of env limit inst s, THEN conjunct1]
  note c4 = claim_status [of env limit inst s, THEN conjunct2]
  note c5 = cleanup_status [of env maxAgeMs s, THEN conjunct1]
  note c6 = cleanup_status [of env maxAgeMs s, THEN conjunct2]
  note c7 = markCarsAsSent_status [of s f carIds jobs]
  note c8 = markCarsAsPending_status [of s f carIds]
  have c9: "db (sqliteManager a) = Some rows \<and> distinct (map id_col rows) \<longrightarrow>
        (\<forall>i < length rows.
           (status (rows ! i) \<noteq> PENDING \<longrightarrow>
              records (sqliteManager (fst (snd (drainTurn denv a totals)))) ! i = rows ! i)
           \<and> (records (sqliteManager (fst (snd (drainTurn denv a totals)))) ! i = rows ! i
              \<or> (status (rows ! i) = PENDING
                 \<and> (\<exists>st k job.
                       ((st = RECOVERING \<and> k = 0 \<and> job = redis_job_id (rows ! i))
                        \<or> (st = SENT \<and> k = 0) \<or> (st = PENDING \<and> (k = 1 \<or> k = 2)))
                       \<and> records (sqliteManager (fst (snd (drainTurn denv a totals)))) ! i
                           = (rows ! i)\<lparr>status := st,
                               retry_count := retry_count (rows ! i) + k,
                               recovery_instance := Some (rm_instanceId (recoveryManager a)),
                               recovery_started_at := Some (now (claimEnv denv)),
                               redis_job_id := job\<rparr>)))
           \<and> (fst (drainTurn denv a totals) = Continue \<longrightarrow>
                records (sqliteManager (fst (snd (drainTurn denv a totals)))) ! i = rows ! i
                \<or> (status (rows ! i) = PENDING
                   \<and> ((\<exists>job. records (sqliteManager (fst (snd (drainTurn denv a totals)))) ! i
                              = (rows ! i)\<lparr>status := SENT,
                                  recovery_instance := Some (rm_instanceId (recoveryManager a)),
                                  recovery_started_at := Some (now (claimEnv denv)),
                                  redis_job_id := job\<rparr>)
                      \<or> records (sqliteManager (fst (snd (drainTurn denv a totals)))) ! i
                          = (rows ! i)\<lparr>status := PENDING,
                              retry_count := retry_count (rows ! i) + 1,
                              recovery_instance := Some (rm_instanceId (recoveryManager a)),
                              recovery_started_at := Some (now (claimEnv denv))\<rparr>)))
           \<and> (fst (drainTurn denv a totals) = Break \<longrightarrow>
                records (sqliteManager (fst (snd (drainTurn denv a totals)))) ! i = rows ! i
                \<or> (status (rows ! i) = PENDING
                   \<and> records (sqliteManager (fst (snd (drainTurn denv a totals)))) ! i
                          = (rows ! i)\<lparr>status := PENDING,
                              retry_count := retry_count (rows ! i) + 1,
                              recovery_instance := Some (rm_instanceId (recoveryManager a)),
                              recovery_started_at := Some (now (claimEnv denv))\<rparr>))
           \<and> (fst (drainTurn denv a totals) = Caught \<longrightarrow>
                records (sqliteManager (fst (snd (drainTurn denv a totals)))) ! i = rows ! i
                \<or> (status (rows ! i) = PENDING
                   \<and> (\<exists>k job. (k = 1 \<or> k = 2)
                        \<and> records (sqliteManager (fst (snd (drainTurn denv a totals)))) ! i
                          = (rows ! i)\<lparr>status := PENDING,
                              retry_count := retry_count (rows ! i) + k,
                              recovery_instance := Some (rm_instanceId (recoveryManager a)),
                              recovery_started_at := Some (now (claimEnv denv)),
                              redis_job_id := job\<rparr>))))"
    (is "?H \<longrightarrow> (\<forall>i < length rows. ?P i)")
  proof (rule impI)
    assume h: ?H
    then have init: "db (sqliteManager a) = Some rows" and pk: "distinct (map id_col rows)"
      by simp_all
    show "\<forall>i < length rows. ?P i"
    proof (cases "dbFails (claimEnv denv)")
      case True
      from True drainTurn_failed_claim [of denv a totals]
      obtain e where R: "records (sqliteManager (fst (snd (drainTurn denv a totals)))) = rows"
        and T: "fst (drainTurn denv a totals) = Throw e"
        using init by (auto simp: records_def)
      show ?thesis by (simp add: R T)
    next
      case False
      show ?thesis
      proof (intro allI impI)
        fix i assume i: "i < length rows"
        show "?P i" by (rule drainTurn_rows [OF init pk False i])
      qed
    qed
  qed
  from c1 c2 c3 c4 c5 c6 c7 c8 c9 show ?thesis by (intro conjI) assumption+
qed


theorem status_transitions_witness:
  "db (sqliteManager (sampleApp\<lparr>sqliteManager :=
          sampleStore [sampleRow ''a'' 10 PENDING, sampleRow ''b'' 20 PENDING, sampleRow ''c'' 5 SENT]\<rparr>))
     = Some [sampleRow ''a'' 10 PENDING, sampleRow ''b'' 20 PENDING, sampleRow ''c'' 5 SENT]
   \<and> distinct (map id_col [sampleRow ''a'' 10 PENDING, sampleRow ''b'' 20 PENDING, sampleRow ''c'' 5 SENT])
   \<and> fst (drainTurn (sampleDrainEnv firstAddSucceeds None)
        (sampleApp\<lparr>sqliteManager :=
          sampleStore [sampleRow ''a'' 10 PENDING, sampleRow ''b'' 20 PENDING, sampleRow ''c'' 5 SENT]\<rparr>)
        (0, 0)) = Continue
   \<and> records (sqliteManager (fst (snd
        (drainTurn (sampleDrainEnv firstAddSucceeds None)
        (sampleApp\<lparr>sqliteManager :=
          sampleStore [sampleRow ''a'' 10 PENDING, sampleRow ''b'' 20 PENDING, sampleRow ''c'' 5 SENT]\<rparr>)
        (0, 0)))))
     = [(sampleRow ''a'' 10 SENT)\<lparr>recovery_instance := Some ''instance-1-1000'',
                                    recovery_started_at := Some 1000, redis_job_id := Some ''7''\<rparr>,
        (sampleRow ''b'' 20 PENDING)\<lparr>retry_count := 1, recovery_instance := Some ''instance-1-1000'',
                                       recovery_started_at := Some 1000\<rparr>,
        sampleRow ''c'' 5 SENT]
   \<and> records (sqliteManager (fst (snd
        (drainTurn (sampleDrainEnv firstAddSucceeds None)
        (sampleApp\<lparr>sqliteManager :=
          sampleStore [sampleRow ''a'' 10 PENDING, sampleRow ''b'' 20 PENDING, sampleRow ''c'' 5 SENT]\<rparr>)
        (0, 0))))) ! 2 = sampleRow ''c'' 5 SENT
   \<and> fst (drainTurn ((sampleDrainEnv addsSucceed None)\<lparr>probeOutcome := Fails\<rparr>)
        (sampleApp\<lparr>sqliteManager :=
          sampleStore [sampleRow ''a'' 10 PENDING, sampleRow ''b'' 20 PENDING, sampleRow ''c'' 5 SENT]\<rparr>)
        (0, 0)) = Break
   \<and> records (sqliteManager (fst (snd
        (drainTurn ((sampleDrainEnv addsSucceed None)\<lparr>probeOutcome := Fails\<rparr>)
        (sampleApp\<lparr>sqliteManager :=
          sampleStore [sampleRow ''a'' 10 PENDING, sampleRow ''b'' 20 PENDING, sampleRow ''c'' 5 SENT]\<rparr>)
        (0, 0))))) ! 0
     = (sampleRow ''a'' 10 PENDING)\<lparr>retry_count := 1, recovery_instance := Some ''instance-1-1000'',
                                      recovery_started_at := Some 1000\<rparr>
   \<and> db (sqliteManager (sampleApp\<lparr>sqliteManager :=
          sampleStore [sampleRow ''a'' 10 PENDING, sampleRow ''b'' 20 PENDING, sampleRow ''c'' 30 PENDING]\<rparr>))
     = Some [sampleRow ''a'' 10 PENDING, sampleRow ''b'' 20 PENDING, sampleRow ''c'' 30 PENDING]
   \<and> distinct (map id_col [sampleRow ''a'' 10 PENDING, sampleRow ''b'' 20 PENDING, sampleRow ''c'' 30 PENDING])
   \<and> fst (drainTurn ((sampleDrainEnv firstAddSucceeds None)\<lparr>pendingFailAt := Some 1\<rparr>)
        (sampleApp\<lparr>sqliteManager :=
          sampleStore [sampleRow ''a'' 10 PENDING, sampleRow ''b'' 20 PENDING, sampleRow ''c'' 30 PENDING]\<rparr>)
        (0, 0)) = Caught
   \<and> records (sqliteManager (fst (snd
        (drainTurn ((sampleDrainEnv firstAddSucceeds None)\<lparr>pendingFailAt := Some 1\<rparr>)
        (sampleApp\<lparr>sqliteManager :=
          sampleStore [sampleRow ''a'' 10 PENDING, sampleRow ''b'' 20 PENDING, sampleRow ''c'' 30 PENDING]\<rparr>)
        (0, 0)))))
     = [(sampleRow ''a'' 10 PENDING)\<lparr>retry_count := 1, recovery_instance := Some ''instance-1-1000'',
                                       recovery_started_at := Some 1000, redis_job_id := Some ''7''\<rparr>,
        (sampleRow ''b'' 20 PENDING)\<lparr>retry_count := 2, recovery_instance := Some ''instance-1-1000'',
                                       recovery_started_at := Some 1000\<rparr>,
        (sampleRow ''c'' 30 PENDING)\<lparr>retry_count := 1, recovery_instance := Some ''instance-1-1000'',
                                       recovery_started_at := Some 1000\<rparr>]
   \<and> status (records (sqliteManager (fst (snd
        (drainTurn ((sampleDrainEnv firstAddSucceeds None)\<lparr>pendingFailAt := Some 1\<rparr>)
        (sampleApp\<lparr>sqliteManager :=
          sampleStore [sampleRow ''a'' 10 PENDING, sampleRow ''b'' 20 PENDING, sampleRow ''c'' 30 PENDING]\<rparr>)
        (0, 0))))) ! 1) = PENDING
   \<and> id_col (records (sampleStore [sampleRow ''a'' 10 RECOVERING]) ! 0) \<in> set (executed None [''a''])
   \<and> status (records (snd (markCarsAsSent None [''a''] [''7'']
         (sampleStore [sampleRow ''a'' 10 RECOVERING]))) ! 0) = SENT
   \<and> status (records (snd (markCarsAsPending None [''a'']
         (sampleStore [sampleRow ''a'' 10 RECOVERING]))) ! 0) = PENDING"
proof -
  let ?s1 = "sampleStore [sampleRow ''a'' 10 RECOVERING]"
  have m1: "0 < length (records ?s1)" by (simp add: records_def sampleStore_def)
  have m2: "id_col (records ?s1 ! 0) \<in> set (executed None [''a''])"
    by (simp add: records_def sampleStore_def sampleRow_def executed_def)
  note mk1 = status_transitions [of "sampleEnv 1000" sampleCar ?s1 1 "''i''" 0 None "[''a'']" "[''7'']"
      sampleApp "[]" "sampleDrainEnv addsSucceed None" "(0, 0)",
      THEN conjunct2, THEN conjunct2, THEN conjunct2, THEN conjunct2, THEN conjunct2,
      THEN conjunct2, THEN conjunct1, rule_format, OF m1, THEN conjunct1, rule_format, OF m2]
  note mk2 = status_transitions [of "sampleEnv 1000" sampleCar ?s1 1 "''i''" 0 None "[''a'']" "[''7'']"
      sampleApp "[]" "sampleDrainEnv addsSucceed None" "(0, 0)",
      THEN conjunct2, THEN conjunct2, THEN conjunct2, THEN conjunct2, THEN conjunct2,
      THEN conjunct2, THEN conjunct2, THEN conjunct1, rule_format, OF m1, THEN conjunct1,
      rule_format, OF m2]
  let ?rows = "[sampleRow ''a'' 10 PENDING, sampleRow ''b'' 20 PENDING, sampleRow ''c'' 5 SENT]"
  let ?a = "sampleApp\<lparr>sqliteManager := sampleStore ?rows\<rparr>"
  let ?env = "sampleDrainEnv firstAddSucceeds None"
  let ?R = "records (sqliteManager (fst (snd (drainTurn ?env ?a (0, 0)))))"
  have h1: "db (sqliteManager ?a) = Some ?rows" by (simp add: sampleStore_def)
  have h2: "distinct (map id_col ?rows)" by (simp add: sampleRow_def)
  have ev: "fst (drainTurn ?env ?a (0, 0)) = Continue
     \<and> ?R
     = [(sampleRow ''a'' 10 SENT)\<lparr>recovery_instance := Some ''instance-1-1000'',
                                    recovery_started_at := Some 1000, redis_job_id := Some ''7''\<rparr>,
        (sampleRow ''b'' 20 PENDING)\<lparr>retry_count := 1, recovery_instance := Some ''instance-1-1000'',
                                       recovery_started_at := Some 1000\<rparr>,
        sampleRow ''c'' 5 SENT]"
    by (simp add: drainTurn_def sampleDrainEnv_def firstAddSucceeds_def sampleApp_def
        sampleStore_def sampleEnv_def sampleRow_def getAndMarkPendingCars_def selected_cars_def
        sqlLimit_def claimHit_def claimRow_def
        isRedisAvailable_def testRedisWrite_def isOpen_def newCircuitBreaker_def
        markCarsAsSent_def markCarsAsPending_def loopResult_def executed_def updateWhereId_def
        sentRow_def pendingRow_def jobIdAt_def orEmpty_def records_def Let_def)
  note ev1 = ev [THEN conjunct1]
  note ev2 = ev [THEN conjunct2]
  have l2: "2 < length ?rows" by simp
  have st: "status (?rows ! 2) \<noteq> PENDING" by (simp add: sampleRow_def)
  have r2: "?rows ! 2 = sampleRow ''c'' 5 SENT" by simp
  note d2 = status_transitions [of "sampleEnv 1000" sampleCar "sampleStore []" 1 "''i''" 0 None "[]" "[]"
      ?a ?rows ?env "(0, 0)",
      THEN conjunct2, THEN conjunct2, THEN conjunct2, THEN conjunct2, THEN conjunct2,
      THEN conjunct2, THEN conjunct2, THEN conjunct2, rule_format, OF conjI [OF h1 h2] l2,
      THEN conjunct1, rule_format, OF st]
  have kept: "?R ! 2 = sampleRow ''c'' 5 SENT" by (rule trans [OF d2 r2])
  let ?envB = "(sampleDrainEnv addsSucceed None)\<lparr>probeOutcome := Fails\<rparr>"
  let ?RB = "records (sqliteManager (fst (snd (drainTurn ?envB ?a (0, 0)))))"
  have evB: "fst (drainTurn ?envB ?a (0, 0)) = Break
     \<and> ?RB
     = [(sampleRow ''a'' 10 PENDING)\<lparr>retry_count := 1, recovery_instance := Some ''instance-1-1000'',
                                       recovery_started_at := Some 1000\<rparr>,
        (sampleRow ''b'' 20 PENDING)\<lparr>retry_count := 1, recovery_instance := Some ''instance-1-1000'',
                                       recovery_started_at := Some 1000\<rparr>,
        sampleRow ''c'' 5 SENT]"
    by (simp add: drainTurn_def revertAll_def sampleDrainEnv_def addsSucceed_def sampleApp_def
        sampleStore_def sampleEnv_def sampleRow_def getAndMarkPendingCars_def selected_cars_def
        sqlLimit_def claimHit_def claimRow_def
        isRedisAvailable_def testRedisWrite_def isOpen_def newCircuitBreaker_def
        markCarsAsSent_def markCarsAsPending_def loopResult_def executed_def updateWhereId_def
        sentRow_def pendingRow_def jobIdAt_def orEmpty_def records_def Let_def)
  note evB1 = evB [THEN conjunct1]
  note evB2 = evB [THEN conjunct2]
  have l0: "0 < length ?rows" by simp
  have neB: "?RB ! 0 \<noteq> ?rows ! 0" by (simp only: evB2) (simp add: sampleRow_def)
  note dB = status_transitions [of "sampleEnv 1000" sampleCar "sampleStore []" 1 "''i''" 0 None "[]" "[]"
      ?a ?rows ?envB "(0, 0)",
      THEN conjunct2, THEN conjunct2, THEN conjunct2, THEN conjunct2, THEN conjunct2,
      THEN conjunct2, THEN conjunct2, THEN conjunct2, rule_format, OF conjI [OF h1 h2] l0,
      THEN conjunct2, THEN conjunct2, THEN conjunct2, THEN conjunct1, rule_format, OF evB1]
  from dB have eqB: "?RB ! 0 = (?rows ! 0)\<lparr>status := PENDING,
                              retry_count := retry_count (?rows ! 0) + 1,
                              recovery_instance := Some (rm_instanceId (recoveryManager ?a)),
                              recovery_started_at := Some (now (claimEnv ?envB))\<rparr>"
  proof (rule disjE)
    assume x: "?RB ! 0 = ?rows ! 0"
    from neB x show ?thesis by (rule notE)
  next
    assume "status (?rows ! 0) = PENDING
       \<and> ?RB ! 0 = (?rows ! 0)\<lparr>status := PENDING,
                              retry_count := retry_count (?rows ! 0) + 1,
                              recovery_instance := Some (rm_instanceId (recoveryManager ?a)),
                              recovery_started_at := Some (now (claimEnv ?envB))\<rparr>"
    then show ?thesis by (rule conjunct2)
  qed
  have rhsB: "(?rows ! 0)\<lparr>status := PENDING,
                              retry_count := retry_count (?rows ! 0) + 1,
                              recovery_instance := Some (rm_instanceId (recoveryManager ?a)),
                              recovery_started_at := Some (now (claimEnv ?envB))\<rparr>
     = (sampleRow ''a'' 10 PENDING)\<lparr>retry_count := 1, recovery_instance := Some ''instance-1-1000'',
                                      recovery_started_at := Some 1000\<rparr>"
    by (simp add: sampleRow_def sampleApp_def sampleDrainEnv_def sampleEnv_def)
  have reverted: "?RB ! 0
     = (sampleRow ''a'' 10 PENDING)\<lparr>retry_count := 1, recovery_instance := Some ''instance-1-1000'',
                                      recovery_started_at := Some 1000\<rparr>"
    by (rule trans [OF eqB rhsB])
  let ?rows3 = "[sampleRow ''a'' 10 PENDING, sampleRow ''b'' 20 PENDING, sampleRow ''c'' 30 PENDING]"
  let ?a3 = "sampleApp\<lparr>sqliteManager := sampleStore ?rows3\<rparr>"
  let ?envX = "(sampleDrainEnv firstAddSucceeds None)\<lparr>pendingFailAt := Some 1\<rparr>"
  let ?RX = "records (sqliteManager (fst (snd (drainTurn ?envX ?a3 (0, 0)))))"
  have k1: "db (sqliteManager ?a3) = Some ?rows3" by (simp add: sampleStore_def)
  have k2: "distinct (map id_col ?rows3)" by (simp add: sampleRow_def)
  have evX: "fst (drainTurn ?envX ?a3 (0, 0)) = Caught
     \<and> ?RX
     = [(sampleRow ''a'' 10 PENDING)\<lparr>retry_count := 1, recovery_instance := Some ''instance-1-1000'',
                                       recovery_started_at := Some 1000, redis_job_id := Some ''7''\<rparr>,
        (sampleRow ''b'' 20 PENDING)\<lparr>retry_count := 2, recovery_instance := Some ''instance-1-1000'',
                                       recovery_started_at := Some 1000\<rparr>,
        (sampleRow ''c'' 30 PENDING)\<lparr>retry_count := 1, recovery_instance := Some ''instance-1-1000'',
                                       recovery_started_at := Some 1000\<rparr>]"
    by (simp add: drainTurn_def revertAll_def sampleDrainEnv_def firstAddSucceeds_def sampleApp_def
        sampleStore_def sampleEnv_def sampleRow_def getAndMarkPendingCars_def selected_cars_def
        sqlLimit_def claimHit_def claimRow_def
        isRedisAvailable_def testRedisWrite_def isOpen_def newCircuitBreaker_def
        markCarsAsSent_def markCarsAsPending_def loopResult_def executed_def updateWhereId_def
        sentRow_def pendingRow_def jobIdAt_def orEmpty_def records_def Let_def)
  note evX1 = evX [THEN conjunct1]
  note evX2 = evX [THEN conjunct2]
  have l1: "1 < length ?rows3" by simp
  have neX: "?RX ! 1 \<noteq> ?rows3 ! 1" by (simp only: evX2) (simp add: sampleRow_def)
  note dX = status_transitions [of "sampleEnv 1000" sampleCar "sampleStore []" 1 "''i''" 0 None "[]" "[]"
      ?a3 ?rows3 ?envX "(0, 0)",
      THEN conjunct2, THEN conjunct2, THEN conjunct2, THEN conjunct2, THEN conjunct2,
      THEN conjunct2, THEN conjunct2, THEN conjunct2, rule_format, OF conjI [OF k1 k2] l1,
      THEN conjunct2, THEN conjunct2, THEN conjunct2, THEN conjunct2, rule_format, OF evX1]
  from dX have exX: "\<exists>k job. (k = 1 \<or> k = 2)
       \<and> ?RX ! 1 = (?rows3 ! 1)\<lparr>status := PENDING,
                              retry_count := retry_count (?rows3 ! 1) + k,
                              recovery_instance := Some (rm_instanceId (recoveryManager ?a3)),
                              recovery_started_at := Some (now (claimEnv ?envX)),
                              redis_job_id := job\<rparr>"
  proof (rule disjE)
    assume x: "?RX ! 1 = ?rows3 ! 1"
    from neX x show ?thesis by (rule notE)
  next
    assume "status (?rows3 ! 1) = PENDING
       \<and> (\<exists>k job. (k = 1 \<or> k = 2)
       \<and> ?RX ! 1 = (?rows3 ! 1)\<lparr>status := PENDING,
                              retry_count := retry_count (?rows3 ! 1) + k,
                              recovery_instance := Some (rm_instanceId (recoveryManager ?a3)),
                              recovery_started_at := Some (now (claimEnv ?envX)),
                              redis_job_id := job\<rparr>)"
    then show ?thesis by (rule conjunct2)
  qed
  then obtain k job where eqX: "?RX ! 1 = (?rows3 ! 1)\<lparr>status := PENDING,
                              retry_count := retry_count (?rows3 ! 1) + k,
                              recovery_instance := Some (rm_instanceId (recoveryManager ?a3)),
                              recovery_started_at := Some (now (claimEnv ?envX)),
                              redis_job_id := job\<rparr>"
    by (elim exE conjE)
  have again: "status (?RX ! 1) = PENDING" by (simp only: eqX) simp
  from h1 h2 ev1 ev2 kept evB1 reverted k1 k2 evX1 evX2 again m2 mk1 mk2
  show ?thesis by (intro conjI) assumption+
qed

theorem status_transitions_counterexample:
  "status (hd (records (sampleStore [sampleRow ''a'' 10 PENDING]))) = PENDING
   \<and> status (hd (records (snd (markCarsAsSent None [''a''] [''7'']
        (sampleStore [sampleRow ''a'' 10 PENDING]))))) = SENT
   \<and> status (hd (records (sampleStore [sampleRow ''a'' 10 SENT]))) = SENT
   \<and> status (hd (records (snd (markCarsAsPending None [''a'']
        (sampleStore [sampleRow ''a'' 10 SENT]))))) = PENDING
   \<and> map status (records (snd (markCarsAsSent (Some 1) [''a'', ''b''] [''7'', ''8'']
        (sampleStore [sampleRow ''a'' 10 RECOVERING, sampleRow ''b'' 20 RECOVERING]))))
       = [SENT, RECOVERING]
   \<and> fst (drainTurn (sampleDrainEnv addsSucceed (Some 1))
        (sampleApp\<lparr>sqliteManager :=
           sampleStore [sampleRow ''a'' 10 PENDING, sampleRow ''b'' 20 PENDING]\<rparr>) (0, 0)) = Caught
   \<and> map status
        (records (sqliteManager (fst (snd (drainTurn (sampleDrainEnv addsSucceed (Some 1))
           (sampleApp\<lparr>sqliteManager :=
              sampleStore [sampleRow ''a'' 10 PENDING, sampleRow ''b'' 20 PENDING]\<rparr>) (0, 0))))))
       = [PENDING, PENDING]
   \<and> map redis_job_id
        (records (sqliteManager (fst (snd (drainTurn (sampleDrainEnv addsSucceed (Some 1))
           (sampleApp\<lparr>sqliteManager :=
              sampleStore [sampleRow ''a'' 10 PENDING, sampleRow ''b'' 20 PENDING]\<rparr>) (0, 0))))))
       = [Some ''7'', None]"
  by (simp add: drainTurn_def revertAll_def sampleDrainEnv_def addsSucceed_def sampleApp_def
      sampleStore_def sampleEnv_def sampleRow_def getAndMarkPendingCars_def selected_cars_def
      sqlLimit_def claimHit_def
      claimRow_def isRedisAvailable_def testRedisWrite_def isOpen_def newCircuitBreaker_def
      markCarsAsSent_def markCarsAsPending_def loopResult_def executed_def updateWhereId_def
      sentRow_def pendingRow_def jobIdAt_def orEmpty_def records_def Let_def)

theorem retry_count_raised_counterexample:
  "map status (records (sampleStore [sampleRow ''a'' 10 SENT])) = [SENT]
   \<and> map retry_count (records (sampleStore [sampleRow ''a'' 10 SENT])) = [0]
   \<and> map status (records (snd (markCarsAsPending None [''a'']
        (sampleStore [sampleRow ''a'' 10 SENT])))) = [PENDING]
   \<and> map retry_count (records (snd (markCarsAsPending None [''a'']
        (sampleStore [sampleRow ''a'' 10 SENT])))) = [1]
   \<and> fst (addAll addsSucceed 0 [sampleRow ''a'' 10 RECOVERING, sampleRow ''b'' 20 RECOVERING])
       = [(''a'', ''7''), (''b'', ''7'')]
   \<and> map retry_count
        (records (sqliteManager (sampleApp\<lparr>sqliteManager :=
              sampleStore [sampleRow ''a'' 10 PENDING, sampleRow ''b'' 20 PENDING]\<rparr>)))
       = [0, 0]
   \<and> fst (drainTurn (sampleDrainEnv addsSucceed (Some 1))
        (sampleApp\<lparr>sqliteManager :=
           sampleStore [sampleRow ''a'' 10 PENDING, sampleRow ''b'' 20 PENDING]\<rparr>) (0, 0)) = Caught
   \<and> map retry_count
        (records (sqliteManager (fst (snd (drainTurn (sampleDrainEnv addsSucceed (Some 1))
           (sampleApp\<lparr>sqliteManager :=
              sampleStore [sampleRow ''a'' 10 PENDING, sampleRow ''b'' 20 PENDING]\<rparr>) (0, 0))))))
       = [1, 1]"
  by (simp add: drainTurn_def revertAll_def sampleDrainEnv_def addsSucceed_def sampleApp_def
      sampleStore_def sampleEnv_def sampleRow_def getAndMarkPendingCars_def selected_cars_def
      sqlLimit_def claimHit_def
      claimRow_def isRedisAvailable_def testRedisWrite_def isOpen_def newCircuitBreaker_def
      markCarsAsSent_def markCarsAsPending_def loopResult_def executed_def updateWhereId_def
      sentRow_def pendingRow_def jobIdAt_def orEmpty_def records_def Let_def)

end
